theory Spec2Isabelle
  imports Complex_Main "HOL-Library.AList"
begin

section \<open>Python values used by the relay server\<close>

subsection \<open>Floats\<close>

text \<open>
  A Python float is an IEEE 754 double: a finite number, one of the two infinities, or
  NaN. A finite double is held as the real number it denotes (the sign of zero is not
  kept). Comparison follows IEEE 754: every comparison with NaN is false.
\<close>

datatype pyfloat = Fin real | PInf | NInf | NaN

text \<open>
  Arithmetic on doubles rounds the exact result to the nearest double, ties to the even
  significand. \<open>rhe\<close> rounds a real to the nearest integer, ties to even. \<open>expo x\<close> is
  the exponent of the binade of \<open>x\<close>: the largest \<open>e \<le> 1023\<close> with \<open>2 ^ e \<le> |x|\<close>, and
  \<open>- 1022\<close> for the subnormal range; neighbouring doubles of that binade are
  \<open>quantum x\<close> apart (53 significant bits).
\<close>

definition rhe :: "real \<Rightarrow> int" where
  "rhe y =
     (let n = \<lfloor>y\<rfloor>; d = y - of_int n
      in if d < 1 / 2 then n else if 1 / 2 < d then n + 1 else if even n then n else n + 1)"

fun find_exp :: "nat \<Rightarrow> real \<Rightarrow> int" where
  "find_exp 0 a = - 1022"
| "find_exp (Suc n) a =
     (if 2 powi (int (Suc n) - 1022) \<le> a then int (Suc n) - 1022 else find_exp n a)"

definition expo :: "real \<Rightarrow> int" where
  "expo x = find_exp 2045 \<bar>x\<bar>"

definition quantum :: "real \<Rightarrow> real" where
  "quantum x = 2 powi (expo x - 52)"

definition round_double :: "real \<Rightarrow> real" where
  "round_double x = of_int (rhe (x / quantum x)) * quantum x"

text \<open>A rounded result of magnitude \<open>2 ^ 1024\<close> or more overflows to an infinity.\<close>

definition to_float :: "real \<Rightarrow> pyfloat" where
  "to_float r = (if 2 ^ 1024 \<le> r then PInf else if r \<le> - (2 ^ 1024) then NInf else Fin r)"

fun flt :: "pyfloat \<Rightarrow> pyfloat \<Rightarrow> bool" where
  "flt (Fin a) (Fin b) = (a < b)"
| "flt (Fin a) PInf = True"
| "flt NInf (Fin b) = True"
| "flt NInf PInf = True"
| "flt _ _ = False"

fun fneg :: "pyfloat \<Rightarrow> pyfloat" where
  "fneg (Fin a) = Fin (- a)"
| "fneg PInf = NInf"
| "fneg NInf = PInf"
| "fneg NaN = NaN"

fun fadd :: "pyfloat \<Rightarrow> pyfloat \<Rightarrow> pyfloat" where
  "fadd (Fin a) (Fin b) = to_float (round_double (a + b))"
| "fadd NaN _ = NaN"
| "fadd _ NaN = NaN"
| "fadd PInf NInf = NaN"
| "fadd NInf PInf = NaN"
| "fadd PInf _ = PInf"
| "fadd _ PInf = PInf"
| "fadd NInf _ = NInf"
| "fadd _ NInf = NInf"

text \<open>
  The builtins \<open>min(a, b)\<close> and \<open>max(a, b)\<close> start from the first argument and
  replace it by the second only if the second is strictly smaller (larger).
\<close>

definition py_min :: "pyfloat \<Rightarrow> pyfloat \<Rightarrow> pyfloat" where
  "py_min a b = (if flt b a then b else a)"

definition py_max :: "pyfloat \<Rightarrow> pyfloat \<Rightarrow> pyfloat" where
  "py_max a b = (if flt a b then b else a)"

subsection \<open>Decoded JSON and the coercion \<open>float(v)\<close>\<close>

datatype json =
    JNull
  | JBool bool
  | JInt int
  | JFloat pyfloat
  | JStr string
  | JArr "json list"
  | JObj "(string \<times> json) list"

text \<open>
  \<open>float(v)\<close> raises on \<open>None\<close>, lists and dicts (TypeError), on an integer whose
  nearest double would overflow (OverflowError) and on a string that is not a float
  literal (ValueError); the result \<open>None\<close> stands for any of these exceptions. The
  parser of float literals belongs to the Python runtime and is a parameter \<open>parse\<close>.
\<close>

definition int_to_float :: "int \<Rightarrow> pyfloat option" where
  "int_to_float n =
     (let r = round_double (of_int n) in if 2 ^ 1024 \<le> \<bar>r\<bar> then None else Some (Fin r))"

fun py_float :: "(string \<Rightarrow> pyfloat option) \<Rightarrow> json \<Rightarrow> pyfloat option" where
  "py_float parse JNull = None"
| "py_float parse (JBool b) = Some (Fin (if b then 1 else 0))"
| "py_float parse (JInt n) = int_to_float n"
| "py_float parse (JFloat f) = Some f"
| "py_float parse (JStr s) = parse s"
| "py_float parse (JArr vs) = None"
| "py_float parse (JObj kvs) = None"

text \<open>\<open>d.get(k, default)\<close> on a dictionary held as an association list.\<close>

definition dict_get :: "('k \<times> 'v) list \<Rightarrow> 'k \<Rightarrow> 'v \<Rightarrow> 'v" where
  "dict_get d k dflt = (case map_of d k of None \<Rightarrow> dflt | Some v \<Rightarrow> v)"

section \<open>Data model\<close>

text \<open>
  \<open>PlayerState\<close> is stored as its attribute dictionary with the four keys
  \<open>x\<close>, \<open>y\<close>, \<open>hp\<close>, \<open>mana\<close>; the fields are called \<open>px\<close> and \<open>py\<close> here.
\<close>

record PlayerState =
  px :: pyfloat
  py :: pyfloat
  hp :: int
  mana :: int

record 'ws PlayerConn =
  ws :: 'ws
  player_id :: string
  pc_room_id :: string
  joined_at :: real

text \<open>The dictionary \<open>room.state\<close> with its two keys \<open>tick\<close> and \<open>players\<close>.\<close>

record RoomState =
  tick :: int
  state_players :: "(string \<times> PlayerState) list"

record 'ws Room =
  room_id :: string
  players :: "(string \<times> 'ws PlayerConn) list"
  state :: RoomState

section \<open>Input processing\<close>

text \<open>
  Lines 154 to 158 of \<open>apply_input\<close>: both coercions sit in one \<open>try\<close> block, so a
  failure of either gives the delta (0, 0).
\<close>

definition input_delta ::
  "(string \<Rightarrow> pyfloat option) \<Rightarrow> (string \<times> json) list \<Rightarrow> pyfloat \<times> pyfloat" where
  "input_delta parse msg =
     (case py_float parse (dict_get msg ''dx'' (JFloat (Fin 0))) of
        None \<Rightarrow> (Fin 0, Fin 0)
      | Some dx \<Rightarrow>
          (case py_float parse (dict_get msg ''dy'' (JFloat (Fin 0))) of
             None \<Rightarrow> (Fin 0, Fin 0)
           | Some dy \<Rightarrow> (dx, dy)))"

definition clamp_move :: "pyfloat \<Rightarrow> pyfloat \<Rightarrow> pyfloat" where
  "clamp_move cap d = py_max (fneg cap) (py_min cap d)"

definition clamp_world :: "pyfloat \<Rightarrow> pyfloat" where
  "clamp_world v = py_max (Fin 0) (py_min (Fin 5000) v)"

text \<open>
  \<open>apply_input\<close> with the configured \<open>MAX_MOVE_PER_INPUT\<close> as \<open>cap\<close>. The player's
  dictionary is mutated in place; the model returns the room with the entry replaced.
\<close>

definition apply_input ::
  "(string \<Rightarrow> pyfloat option) \<Rightarrow> pyfloat \<Rightarrow> 'ws Room \<Rightarrow> string \<Rightarrow> (string \<times> json) list
     \<Rightarrow> 'ws Room" where
  "apply_input parse cap room pid msg =
     (case map_of (state_players (state room)) pid of
        None \<Rightarrow> room
      | Some p \<Rightarrow>
          (case input_delta parse msg of
             (dx0, dy0) \<Rightarrow>
               let dx = clamp_move cap dx0;
                   dy = clamp_move cap dy0;
                   p1 = p\<lparr>px := clamp_world (fadd (px p) dx)\<rparr>;
                   p2 = p1\<lparr>py := clamp_world (fadd (py p1) dy)\<rparr>
               in room\<lparr>state := (state room)\<lparr>state_players :=
                    AList.update pid p2 (state_players (state room))\<rparr>\<rparr>))"

section \<open>Server state, sending and matchmaking\<close>

text \<open>The JSON payloads the server sends, one constructor per value of \<open>type\<close>.\<close>

datatype msg_out =
    QueueJoined string int
  | Welcome string string int
  | MatchFound string "string list"
  | Pong json int
  | Snapshot string RoomState int
  | PlayerLeft string string

text \<open>
  The module globals \<open>rooms\<close>, \<open>queue\<close> and \<open>player_index\<close>, and the sends attempted
  so far, oldest first (a send that fails is swallowed by the code and still listed).
  Dictionaries keep insertion order, so they are association lists with distinct keys.
\<close>

record 'ws server =
  rooms :: "(string \<times> 'ws Room) list"
  queue :: "'ws set"
  player_index :: "('ws \<times> 'ws PlayerConn) list"
  outbox :: "('ws \<times> msg_out) list"

definition PUBLIC_QUEUE :: string where
  "PUBLIC_QUEUE = ''public''"

text \<open>
  \<open>now_ms\<close> at the clock reading \<open>t\<close> (seconds, a double far from overflow): the
  product is rounded to a double, and \<open>int()\<close> truncates towards zero.
\<close>

definition now_ms :: "real \<Rightarrow> int" where
  "now_ms t = (let m = round_double (t * 1000) in if 0 \<le> m then \<lfloor>m\<rfloor> else \<lceil>m\<rceil>)"

definition safe_send :: "'ws \<Rightarrow> msg_out \<Rightarrow> 'ws server \<Rightarrow> 'ws server" where
  "safe_send w payload s = s\<lparr>outbox := outbox s @ [(w, payload)]\<rparr>"

definition broadcast :: "'ws Room \<Rightarrow> msg_out \<Rightarrow> 'ws server \<Rightarrow> 'ws server" where
  "broadcast room payload s =
     (if players room = [] then s
      else s\<lparr>outbox := outbox s @ map (\<lambda>e. (ws (snd e), payload)) (players room)\<rparr>)"

text \<open>
  \<open>create_room_with_pair\<close>: \<open>rid\<close> is the identifier \<open>make_room_id\<close> returned, \<open>ta\<close> and
  \<open>tb\<close> are the clock readings stored as \<open>joined_at\<close>.
\<close>

definition spawn :: "real \<Rightarrow> real \<Rightarrow> PlayerState" where
  "spawn x0 y0 = \<lparr>px = Fin x0, py = Fin y0, hp = 100, mana = 100\<rparr>"

definition create_room_with_pair ::
  "string \<Rightarrow> real \<Rightarrow> real \<Rightarrow> 'ws \<Rightarrow> 'ws \<Rightarrow> 'ws server \<Rightarrow> 'ws Room \<times> 'ws server" where
  "create_room_with_pair rid ta tb a b s =
     (let p1 = \<lparr>ws = a, player_id = ''p1'', pc_room_id = rid, joined_at = ta\<rparr>;
          p2 = \<lparr>ws = b, player_id = ''p2'', pc_room_id = rid, joined_at = tb\<rparr>;
          room = \<lparr>room_id = rid,
                  players = AList.update (player_id p2) p2 (AList.update (player_id p1) p1 []),
                  state = \<lparr>tick = 0,
                    state_players = AList.update (player_id p2) (spawn 620 300)
                      (AList.update (player_id p1) (spawn 180 300) [])\<rparr>\<rparr>
      in (room,
          s\<lparr>rooms := AList.update rid room (rooms s),
            player_index := AList.update b p2 (AList.update a p1 (player_index s))\<rparr>))"

text \<open>
  \<open>try_matchmaking\<close>. \<open>queue\<close> is a Python set, and \<open>set.pop()\<close> removes an arbitrary
  element: which one is decided by the runtime, here by the parameter \<open>pop\<close>. The
  clock readings of the call are \<open>tm 0\<close>, \<open>tm 1\<close>, ... in the order they are taken.
\<close>

definition try_matchmaking ::
  "('ws set \<Rightarrow> 'ws) \<Rightarrow> string \<Rightarrow> (nat \<Rightarrow> real) \<Rightarrow> 'ws server \<Rightarrow> 'ws server" where
  "try_matchmaking pop rid tm s =
     (if card (queue s) < 2 then s
      else
        let a = pop (queue s);
            q1 = queue s - {a};
            b = pop q1;
            q2 = q1 - {b}
        in (case create_room_with_pair rid (tm 0) (tm 1) a b (s\<lparr>queue := q2\<rparr>) of
              (room, s1) \<Rightarrow>
                let s2 = safe_send a (Welcome ''p1'' (room_id room) (now_ms (tm 2))) s1;
                    s3 = safe_send b (Welcome ''p2'' (room_id room) (now_ms (tm 3))) s2
                in broadcast room (MatchFound (room_id room) [''p1'', ''p2'']) s3))"

text \<open>A legitimate \<open>set.pop\<close>: it returns a member of every non-empty finite set.\<close>

definition pop_ok :: "('ws set \<Rightarrow> 'ws) \<Rightarrow> bool" where
  "pop_ok pop = (\<forall>S. finite S \<longrightarrow> S \<noteq> {} \<longrightarrow> pop S \<in> S)"

section \<open>Disconnection\<close>

definition remove_client :: "'ws \<Rightarrow> 'ws server \<Rightarrow> 'ws server" where
  "remove_client w s =
     (let s1 = (if w \<in> queue s then s\<lparr>queue := queue s - {w}\<rparr> else s)
      in case map_of (player_index s1) w of
           None \<Rightarrow> s1
         | Some conn \<Rightarrow>
             let s2 = s1\<lparr>player_index := AList.delete w (player_index s1)\<rparr>
             in (case map_of (rooms s2) (pc_room_id conn) of
                   None \<Rightarrow> s2
                 | Some room \<Rightarrow>
                     let room1 = room\<lparr>players := AList.delete (player_id conn) (players room)\<rparr>;
                         room2 = room1\<lparr>state := (state room1)\<lparr>state_players :=
                           AList.delete (player_id conn) (state_players (state room1))\<rparr>\<rparr>;
                         s3 = s2\<lparr>rooms := AList.update (pc_room_id conn) room2 (rooms s2)\<rparr>;
                         s4 = broadcast room2
                                (PlayerLeft (player_id conn) (room_id room2)) s3
                     in if players room2 = []
                        then s4\<lparr>rooms := AList.delete (room_id room2) (rooms s4)\<rparr>
                        else s4))"

section \<open>Session handler\<close>

text \<open>The start of \<open>ws_handler\<close>, up to the receive loop.\<close>

definition ws_connect ::
  "('ws set \<Rightarrow> 'ws) \<Rightarrow> string \<Rightarrow> (nat \<Rightarrow> real) \<Rightarrow> 'ws \<Rightarrow> 'ws server \<Rightarrow> 'ws server" where
  "ws_connect pop rid tm w s =
     (let s1 = safe_send w (QueueJoined PUBLIC_QUEUE (now_ms (tm 0))) s;
          s2 = s1\<lparr>queue := insert w (queue s1)\<rparr>
      in try_matchmaking pop rid (\<lambda>n. tm (Suc n)) s2)"

text \<open>One turn of the receive loop on a payload that decoded to the dictionary \<open>msg\<close>.\<close>

definition ws_message ::
  "(string \<Rightarrow> pyfloat option) \<Rightarrow> pyfloat \<Rightarrow> real \<Rightarrow> 'ws \<Rightarrow> (string \<times> json) list
     \<Rightarrow> 'ws server \<Rightarrow> 'ws server" where
  "ws_message parse cap t w msg s =
     (if map_of msg ''type'' = Some (JStr ''ping'')
      then safe_send w (Pong (dict_get msg ''ts'' JNull) (now_ms t)) s
      else case map_of (player_index s) w of
             None \<Rightarrow> s
           | Some conn \<Rightarrow>
               (case map_of (rooms s) (pc_room_id conn) of
                  None \<Rightarrow> s
                | Some room \<Rightarrow>
                    if map_of msg ''type'' = Some (JStr ''input'')
                    then s\<lparr>rooms := AList.update (pc_room_id conn)
                           (apply_input parse cap room (player_id conn) msg) (rooms s)\<rparr>
                    else s))"

section \<open>Snapshot broadcaster\<close>

text \<open>
  \<open>tick_dt\<close> as computed on entry to \<open>snapshot_loop\<close> from the configured
  \<open>SNAPSHOT_RATE\<close>, a finite number.
\<close>

definition tick_dt :: "real \<Rightarrow> real" where
  "tick_dt rate = 1 / max 1 rate"

definition SNAPSHOT_RATE_default :: real where
  "SNAPSHOT_RATE_default = 20"

text \<open>
  The body of the inner \<open>for\<close> loop for the room registered under \<open>k\<close>, at clock
  reading \<open>t\<close>: the room object is mutated in place, then broadcast.
\<close>

definition snapshot_room :: "real \<Rightarrow> string \<Rightarrow> 'ws server \<Rightarrow> 'ws server" where
  "snapshot_room t k s =
     (case map_of (rooms s) k of
        None \<Rightarrow> s
      | Some room \<Rightarrow>
          let room1 = room\<lparr>state := (state room)\<lparr>tick := tick (state room) + 1\<rparr>\<rparr>;
              s1 = s\<lparr>rooms := AList.update k room1 (rooms s)\<rparr>
          in broadcast room1 (Snapshot (room_id room1) (state room1) (now_ms t)) s1)"

text \<open>The \<open>for\<close> loop over \<open>list(rooms.values())\<close>; \<open>i\<close> counts the clock readings.\<close>

fun snapshot_rooms :: "(nat \<Rightarrow> real) \<Rightarrow> nat \<Rightarrow> string list \<Rightarrow> 'ws server \<Rightarrow> 'ws server" where
  "snapshot_rooms tm i [] s = s"
| "snapshot_rooms tm i (k # ks) s = snapshot_rooms tm (Suc i) ks (snapshot_room (tm i) k s)"

text \<open>One iteration of the \<open>while True\<close> loop, after the sleep.\<close>

definition snapshot_iteration :: "(nat \<Rightarrow> real) \<Rightarrow> 'ws server \<Rightarrow> 'ws server" where
  "snapshot_iteration tm s = snapshot_rooms tm 0 (map fst (rooms s)) s"

text \<open>
  \<open>snapshot_loop\<close> never returns; \<open>snapshot_loop n\<close> is its first \<open>n\<close> iterations, the
  \<open>j\<close>-th of them with the clock readings \<open>tms j\<close>.
\<close>

fun snapshot_loop :: "nat \<Rightarrow> (nat \<Rightarrow> nat \<Rightarrow> real) \<Rightarrow> 'ws server \<Rightarrow> 'ws server" where
  "snapshot_loop 0 tms s = s"
| "snapshot_loop (Suc n) tms s = snapshot_iteration (tms n) (snapshot_loop n tms s)"

section \<open>Reachable server states\<close>

definition init_server :: "'ws server" where
  "init_server = \<lparr>rooms = [], queue = {}, player_index = [], outbox = []\<rparr>"

inductive reachable :: "'ws server \<Rightarrow> bool" where
  r_init: "reachable init_server"
| r_connect: "reachable s \<Longrightarrow> pop_ok pop \<Longrightarrow> reachable (ws_connect pop rid tm w s)"
| r_message: "reachable s \<Longrightarrow> reachable (ws_message parse cap t w msg s)"
| r_remove: "reachable s \<Longrightarrow> reachable (remove_client w s)"
| r_snapshot: "reachable s \<Longrightarrow> reachable (snapshot_iteration tm s)"

text \<open>
  A run of the server: the handlers' steps in the order the event loop takes them. Each
  event carries what the step reads from outside (the choice of \<open>set.pop\<close>, the new
  room id, clock readings, the received message).
\<close>

datatype 'ws event =
    Connect "'ws set \<Rightarrow> 'ws" string "nat \<Rightarrow> real" 'ws
  | Message "string \<Rightarrow> pyfloat option" pyfloat real 'ws "(string \<times> json) list"
  | Disconnect 'ws
  | Broadcast "nat \<Rightarrow> real"

fun step :: "'ws event \<Rightarrow> 'ws server \<Rightarrow> 'ws server" where
  "step (Connect pop rid tm w) s = ws_connect pop rid tm w s"
| "step (Message parse cap t w msg) s = ws_message parse cap t w msg s"
| "step (Disconnect w) s = remove_client w s"
| "step (Broadcast tm) s = snapshot_iteration tm s"

fun run :: "'ws event list \<Rightarrow> 'ws server \<Rightarrow> 'ws server" where
  "run [] s = s"
| "run (e # es) s = run es (step e s)"

text \<open>The event creates a room under the id \<open>k\<close> if it matches two connections.\<close>

fun mints :: "string \<Rightarrow> 'ws event \<Rightarrow> bool" where
  "mints k (Connect pop rid tm w) = (rid = k)"
| "mints k e = False"

fun is_broadcast :: "'ws event \<Rightarrow> bool" where
  "is_broadcast (Broadcast tm) = True"
| "is_broadcast e = False"

definition broadcasts :: "'ws event list \<Rightarrow> nat" where
  "broadcasts es = length (filter is_broadcast es)"

section \<open>Notions used to state the properties\<close>

text \<open>A coordinate inside the world: a finite number between 0 and 5000.\<close>

definition in_world :: "pyfloat \<Rightarrow> bool" where
  "in_world v = (case v of Fin r \<Rightarrow> 0 \<le> r \<and> r \<le> 5000 | _ \<Rightarrow> False)"


text \<open>A stored coordinate is a double: rounding leaves a finite value as it is.\<close>

definition is_double :: "pyfloat \<Rightarrow> bool" where
  "is_double v = (case v of Fin r \<Rightarrow> round_double r = r | _ \<Rightarrow> True)"

text \<open>The field \<open>k\<close> is present in the message and \<open>float\<close> raises on its value.\<close>

definition uncoercible :: "(string \<Rightarrow> pyfloat option) \<Rightarrow> (string \<times> json) list \<Rightarrow> string \<Rightarrow> bool" where
  "uncoercible parse msg k =
     (case map_of msg k of None \<Rightarrow> False | Some v \<Rightarrow> py_float parse v = None)"

text \<open>A sequence of \<open>apply_input\<close> calls on one room, each with its player id and message.\<close>

fun apply_inputs ::
  "(string \<Rightarrow> pyfloat option) \<Rightarrow> pyfloat \<Rightarrow> 'ws Room \<Rightarrow> (string \<times> (string \<times> json) list) list
     \<Rightarrow> 'ws Room" where
  "apply_inputs parse cap room [] = room"
| "apply_inputs parse cap room ((pid, msg) # rest) =
     apply_inputs parse cap (apply_input parse cap room pid msg) rest"

definition room_in_world :: "'ws Room \<Rightarrow> bool" where
  "room_in_world room =
     (\<forall>pid p. map_of (state_players (state room)) pid = Some p \<longrightarrow>
        in_world (px p) \<and> in_world (py p))"

text \<open>Every stored coordinate of a room is a double.\<close>

definition room_doubles :: "'ws Room \<Rightarrow> bool" where
  "room_doubles room =
     (\<forall>pid p. map_of (state_players (state room)) pid = Some p \<longrightarrow>
        is_double (px p) \<and> is_double (py p))"

text \<open>
  The room of the scenarios: connections 1 and 2 matched in an empty server, all clock
  readings 0.
\<close>

definition scenario_room :: "nat Room" where
  "scenario_room = fst (create_room_with_pair ''room-a1b2c3'' 0 0 1 2 init_server)"


text \<open>The room \<open>create_room_with_pair\<close> builds, written out.\<close>

definition new_room :: "string \<Rightarrow> real \<Rightarrow> real \<Rightarrow> 'ws \<Rightarrow> 'ws \<Rightarrow> 'ws Room" where
  "new_room rid ta tb a b =
     \<lparr>room_id = rid,
      players = [(''p1'', \<lparr>ws = a, player_id = ''p1'', pc_room_id = rid, joined_at = ta\<rparr>),
                 (''p2'', \<lparr>ws = b, player_id = ''p2'', pc_room_id = rid, joined_at = tb\<rparr>)],
      state = \<lparr>tick = 0, state_players = [(''p1'', spawn 180 300), (''p2'', spawn 620 300)]\<rparr>\<rparr>"

text \<open>The two in-place mutations of a room outside \<open>apply_input\<close>.\<close>

definition tick_room :: "'ws Room \<Rightarrow> 'ws Room" where
  "tick_room room = room\<lparr>state := (state room)\<lparr>tick := tick (state room) + 1\<rparr>\<rparr>"

definition drop_player :: "string \<Rightarrow> 'ws Room \<Rightarrow> 'ws Room" where
  "drop_player pid room =
     room\<lparr>players := AList.delete pid (players room),
          state := (state room)\<lparr>state_players := AList.delete pid (state_players (state room))\<rparr>\<rparr>"

text \<open>The snapshot sends of one room at clock reading \<open>t\<close>.\<close>

definition snapshot_msgs :: "real \<Rightarrow> 'ws Room option \<Rightarrow> ('ws \<times> msg_out) list" where
  "snapshot_msgs t ro =
     (case ro of
        None \<Rightarrow> []
      | Some r \<Rightarrow>
          map (\<lambda>e. (ws (snd e), Snapshot (room_id r) (state (tick_room r)) (now_ms t))) (players r))"

text \<open>
  The registry is a dictionary (distinct keys) and every registered room, with its key,
  satisfies \<open>P\<close>.
\<close>

definition registry_ok :: "(string \<Rightarrow> 'ws Room \<Rightarrow> bool) \<Rightarrow> 'ws server \<Rightarrow> bool" where
  "registry_ok P s = (distinct (map fst (rooms s)) \<and> (\<forall>e \<in> set (rooms s). P (fst e) (snd e)))"

definition keys_match :: "'ws Room \<Rightarrow> bool" where
  "keys_match room = (set (map fst (players room)) = set (map fst (state_players (state room))))"

text \<open>Every player state of a room state has the initial \<open>hp\<close> and \<open>mana\<close>.\<close>

definition vitals_full :: "RoomState \<Rightarrow> bool" where
  "vitals_full st = (\<forall>e \<in> set (state_players st). hp (snd e) = 100 \<and> mana (snd e) = 100)"

definition snapshots_full :: "'ws server \<Rightarrow> bool" where
  "snapshots_full s =
     (\<forall>e \<in> set (outbox s). \<forall>rid st t. snd e = Snapshot rid st t \<longrightarrow> vitals_full st)"

text \<open>
  The server of the scenarios: connection 1 arrives, then connection 2, in an empty
  server; \<open>set.pop\<close> returns the largest handle, and the \<open>n\<close>-th clock reading of a call is
  \<open>n\<close> seconds. \<open>batch_server\<close> is a server whose queue holds four connections.
\<close>

definition scenario_server :: "nat server" where
  "scenario_server =
     ws_connect Max ''room-a1b2c3'' real 2 (ws_connect Max ''room-000000'' real 1 init_server)"

definition batch_server :: "nat server" where
  "batch_server = \<lparr>rooms = [], queue = {1, 2, 3, 4}, player_index = [], outbox = []\<rparr>"

section \<open>Properties of double rounding\<close>

lemma rhe_of_int: "rhe (of_int m) = m"
  by (simp add: rhe_def)


lemma find_exp_range: "- 1022 \<le> find_exp n a \<and> find_exp n a \<le> int n - 1022"
  by (induction n) auto

lemma find_exp_below: "find_exp n a = - 1022 \<or> 2 powi (find_exp n a) \<le> a"
  by (induction n) auto

lemma find_exp_max:
  "- 1022 \<le> k \<Longrightarrow> k \<le> int n - 1022 \<Longrightarrow> 2 powi k \<le> a \<Longrightarrow> k \<le> find_exp n a"
proof (induction n)
  case 0
  then show ?case by simp
next
  case (Suc n)
  show ?case
  proof (cases "2 powi (int (Suc n) - 1022) \<le> a")
    case True
    then show ?thesis using Suc.prems(2) by simp
  next
    case False
    then have "k \<noteq> int (Suc n) - 1022" using Suc.prems(3) by auto
    then have "k \<le> int n - 1022" using Suc.prems(2) by simp
    then show ?thesis using False Suc by simp
  qed
qed

lemma find_exp_eq:
  "- 1022 \<le> k \<Longrightarrow> k \<le> int n - 1022 \<Longrightarrow> 2 powi k \<le> a \<Longrightarrow> a < 2 powi (k + 1)
   \<Longrightarrow> find_exp n a = k"
proof (induction n)
  case 0
  then show ?case by simp
next
  case (Suc n)
  show ?case
  proof (cases "2 powi (int (Suc n) - 1022) \<le> a")
    case True
    then have "(2::real) powi (int (Suc n) - 1022) < 2 powi (k + 1)"
      using Suc.prems(4) by linarith
    then have "int (Suc n) - 1022 < k + 1"
      using power_int_increasing [of "k + 1" "int (Suc n) - 1022" "2::real"] by force
    then show ?thesis using True Suc.prems(2) by simp
  next
    case False
    then have "k \<noteq> int (Suc n) - 1022" using Suc.prems(3) by auto
    then have "k \<le> int n - 1022" using Suc.prems(2) by simp
    then show ?thesis using False Suc by simp
  qed
qed

lemma expo_eq:
  "- 1022 \<le> k \<Longrightarrow> k \<le> 1023 \<Longrightarrow> 2 powi k \<le> \<bar>x\<bar> \<Longrightarrow> \<bar>x\<bar> < 2 powi (k + 1) \<Longrightarrow> expo x = k"
  unfolding expo_def by (rule find_exp_eq) simp_all

lemma quantum_pos: "0 < quantum x"
  by (simp add: quantum_def)



lemma round_double_fix:
  assumes "x / quantum x = of_int m"
  shows "round_double x = x"
proof -
  have "x = of_int m * quantum x"
    using assms quantum_pos [of x] by (simp add: field_simps)
  then show ?thesis
    using assms by (simp add: round_double_def rhe_of_int)
qed

lemma expo_of_int:
  assumes "n \<noteq> 0" "\<bar>n\<bar> < 2 ^ 53"
  shows "0 \<le> expo (of_int n) \<and> expo (of_int n) \<le> 52"
proof -
  let ?e = "expo (real_of_int n)"
  have a1: "2 powi 0 \<le> \<bar>real_of_int n\<bar>"
    using assms(1) by (simp flip: of_int_abs)
  have a2: "\<bar>real_of_int n\<bar> < 2 ^ 53"
    using assms(2) by (metis of_int_abs of_int_less_numeral_power_cancel_iff)
  have lo: "0 \<le> ?e"
    unfolding expo_def using a1 by (intro find_exp_max) simp_all
  then have "(2::real) powi ?e \<le> \<bar>real_of_int n\<bar>"
    using find_exp_below [of 2045 "\<bar>real_of_int n\<bar>"] by (auto simp: expo_def)
  then have "(2::real) powi ?e < 2 powi 53" using a2 by simp
  then have "?e < 53"
    using power_int_increasing [of 53 ?e "2::real"] by force
  then show ?thesis using lo by simp
qed

text \<open>Integers below \<open>2 ^ 53\<close> in magnitude are doubles.\<close>

lemma round_double_of_int:
  assumes "\<bar>n\<bar> < 2 ^ 53"
  shows "round_double (of_int n) = of_int n"
proof (cases "n = 0")
  case True
  then show ?thesis by (simp add: round_double_def rhe_def)
next
  case False
  let ?e = "expo (real_of_int n)"
  have e: "0 \<le> ?e" "?e \<le> 52" using expo_of_int [OF False assms] by simp_all
  have "quantum (real_of_int n) = 2 powi (- (52 - ?e))" by (simp add: quantum_def)
  also have "\<dots> = inverse (2 ^ nat (52 - ?e))"
  proof -
    have "(2::real) powi (52 - ?e) = 2 ^ nat (52 - ?e)"
      using e by (simp add: power_int_def)
    then show ?thesis by (simp only: power_int_minus)
  qed
  finally have q: "quantum (real_of_int n) = inverse (2 ^ nat (52 - ?e))" .
  have "real_of_int n / quantum (real_of_int n) = of_int (n * 2 ^ nat (52 - ?e))"
    by (simp add: q divide_inverse)
  then show ?thesis by (rule round_double_fix)
qed

lemma round_double_numeral:
  "numeral w < (2 ^ 53 :: int) \<Longrightarrow> round_double (numeral w) = numeral w"
  "numeral w < (2 ^ 53 :: int) \<Longrightarrow> round_double (- numeral w) = - numeral w"
  "round_double 0 = 0" "round_double 1 = 1"
  using round_double_of_int [of "numeral w"] round_double_of_int [of "- numeral w"]
    round_double_of_int [of 0] round_double_of_int [of 1]
  by simp_all

lemma round_double_eval:
  assumes "- 1022 \<le> k" "k \<le> 1023" "2 powi k \<le> \<bar>x\<bar>" "\<bar>x\<bar> < 2 powi (k + 1)"
  shows "round_double x = of_int (rhe (x / 2 powi (k - 52))) * 2 powi (k - 52)"
  using expo_eq [OF assms] by (simp add: round_double_def quantum_def)

text \<open>
  Three roundings as the hardware does them: the double nearest to one tenth, the sum
  \<open>252.0 + 0.1\<close> (the double written 252.1), and the tie \<open>252.1 + 8.0\<close>, which rounds up
  to the double written 260.1.
\<close>

lemma round_double_tenth: "round_double (1 / 10) = 3602879701896397 / 36028797018963968"
  by (subst round_double_eval [of "- 4"]) (simp_all add: rhe_def)




text \<open>Rounding is idempotent: the result of \<open>round_double\<close> is a double.\<close>

lemma find_exp_above:
  "find_exp n a < int n - 1022 \<Longrightarrow> a < 2 powi (find_exp n a + 1)"
proof (induction n)
  case 0
  then show ?case by simp
next
  case (Suc n)
  show ?case
  proof (cases "2 powi (int (Suc n) - 1022) \<le> a")
    case True
    then show ?thesis using Suc.prems by simp
  next
    case False
    then have f: "find_exp (Suc n) a = find_exp n a" by simp
    show ?thesis
    proof (cases "find_exp n a < int n - 1022")
      case True
      then show ?thesis using Suc.IH f by simp
    next
      case False
      then have "find_exp n a = int n - 1022"
        using find_exp_range [of n a] by simp
      then have eq: "find_exp n a + 1 = int (Suc n) - 1022" by simp
      have lt: "a < 2 powi (int (Suc n) - 1022)"
        using \<open>\<not> 2 powi (int (Suc n) - 1022) \<le> a\<close> by (simp only: not_le)
      show ?thesis by (simp only: f eq lt)
    qed
  qed
qed

lemma expo_range: "- 1022 \<le> expo x \<and> expo x \<le> 1023"
  using find_exp_range [of 2045 "\<bar>x\<bar>"] by (simp add: expo_def)

lemma expo_above: "expo x < 1023 \<Longrightarrow> \<bar>x\<bar> < 2 powi (expo x + 1)"
  using find_exp_above [of 2045 "\<bar>x\<bar>"] by (simp add: expo_def)

lemma expo_below: "- 1022 < expo x \<Longrightarrow> 2 powi (expo x) \<le> \<bar>x\<bar>"
  using find_exp_below [of 2045 "\<bar>x\<bar>"] by (auto simp: expo_def)

lemma rhe_bound:
  assumes "\<bar>y\<bar> \<le> of_int N"
  shows "\<bar>rhe y\<bar> \<le> N"
proof -
  have u: "y \<le> of_int N" and l: "- of_int N \<le> y" using assms by linarith+
  have f1: "\<lfloor>y\<rfloor> \<le> N" using u by (simp add: floor_le_iff)
  have f2: "- N \<le> \<lfloor>y\<rfloor>" using l by (simp add: le_floor_iff)
  have up: "y \<noteq> of_int \<lfloor>y\<rfloor> \<Longrightarrow> \<lfloor>y\<rfloor> + 1 \<le> N"
  proof -
    assume "y \<noteq> of_int \<lfloor>y\<rfloor>"
    then have "of_int \<lfloor>y\<rfloor> < y" using of_int_floor_le [of y] by linarith
    then have "of_int \<lfloor>y\<rfloor> < (of_int N :: real)" using u by linarith
    then show ?thesis by simp
  qed
  show ?thesis
    unfolding rhe_def Let_def using f1 f2 up by (auto simp: abs_if)
qed

lemma p2_diff: "(2::real) powi a / 2 powi b = 2 powi (a - b)"
  by (simp add: power_int_diff)

lemma p2_add: "(2::real) powi a * 2 powi b = 2 powi (a + b)"
  by (simp add: power_int_add)

lemma round_double_repr: "round_double x = of_int (rhe (x / quantum x)) * 2 powi (expo x - 52)"
  by (simp add: round_double_def quantum_def)

lemma int_scaled_fix:
  assumes "expo (of_int m * 2 powi j) \<le> j + 52"
  shows "round_double (of_int m * 2 powi j) = of_int m * 2 powi j"
proof -
  let ?r = "real_of_int m * 2 powi j"
  let ?d = "j + 52 - expo ?r"
  have d: "0 \<le> ?d" using assms by simp
  have i: "j - (expo ?r - 52) = ?d" by simp
  have "?r / quantum ?r = of_int m * (2 powi j / 2 powi (expo ?r - 52))"
    by (simp only: quantum_def times_divide_eq_right)
  also have "2 powi j / 2 powi (expo ?r - 52) = (2::real) powi ?d"
    by (simp only: p2_diff i)
  also have "(2::real) powi ?d = 2 ^ nat ?d"
    using d by (simp only: power_int_def if_True)
  finally have "?r / quantum ?r = of_int (m * 2 ^ nat ?d)" by simp
  then show ?thesis by (rule round_double_fix)
qed

lemma round_double_idem: "round_double (round_double x) = round_double x"
proof -
  let ?e = "expo x"
  let ?m = "rhe (x / quantum x)"
  let ?r = "round_double x"
  have r: "?r = of_int ?m * 2 powi (?e - 52)" by (rule round_double_repr)
  show ?thesis
  proof (cases "expo ?r \<le> ?e")
    case True
    then have "expo (of_int ?m * 2 powi (?e - 52)) \<le> (?e - 52) + 52" using r by simp
    then show ?thesis using int_scaled_fix [of ?m "?e - 52"] r by simp
  next
    case False
    then have gt: "?e < expo ?r" by simp
    then have e1023: "?e < 1023" using expo_range [of ?r] by simp
    have lo: "- 1022 < expo ?r" using gt expo_range [of x] by simp
    have xlt: "\<bar>x\<bar> < 2 powi (?e + 1)" using expo_above [OF e1023] .
    have i53: "?e + 1 - (?e - 52) = 53" "53 + (?e - 52) = ?e + 1" by simp_all
    have q: "quantum x = 2 powi (?e - 52)" by (simp add: quantum_def)
    have qpos: "0 < quantum x" by (rule quantum_pos)
    have "\<bar>x / quantum x\<bar> = \<bar>x\<bar> / quantum x" using qpos by simp
    also have "\<dots> < 2 powi (?e + 1) / quantum x"
      using xlt qpos by (simp add: divide_strict_right_mono)
    also have "2 powi (?e + 1) / quantum x = (2::real) powi 53"
      using i53 by (simp only: q p2_diff)
    finally have "\<bar>x / quantum x\<bar> \<le> of_int (2 ^ 53)" by simp
    then have mb: "\<bar>?m\<bar> \<le> 2 ^ 53" by (rule rhe_bound)
    have "(2::real) powi (?e + 1) \<le> 2 powi (expo ?r)"
      using gt by (intro power_int_increasing) simp_all
    then have rge: "2 powi (?e + 1) \<le> \<bar>?r\<bar>" using expo_below [OF lo] by linarith
    have "\<bar>?r\<bar> = of_int \<bar>?m\<bar> * 2 powi (?e - 52)"
      by (subst r) (simp add: abs_mult)
    then have "(2::real) powi (?e + 1) \<le> of_int \<bar>?m\<bar> * 2 powi (?e - 52)" using rge by simp
    then have "(2::real) powi (?e + 1) / 2 powi (?e - 52) \<le> of_int \<bar>?m\<bar>"
      by (simp add: pos_divide_le_eq)
    moreover have "(2::real) powi (?e + 1) / 2 powi (?e - 52) = 2 powi 53"
      using i53 by (simp only: p2_diff)
    ultimately have "(2::real) ^ 53 \<le> of_int \<bar>?m\<bar>" by simp
    then have "(2::int) ^ 53 \<le> \<bar>?m\<bar>"
      by (metis of_int_le_iff of_int_numeral of_int_power)
    then have meq: "\<bar>?m\<bar> = 2 ^ 53" using mb by simp
    then obtain sg :: int where sg: "?m = sg * 2 ^ 53" "sg = 1 \<or> sg = - 1"
      by (cases "0 \<le> ?m") (auto intro: that [of 1] that [of "- 1"])
    have "real_of_int ?m = of_int sg * 2 powi 53"
      by (simp add: sg(1))
    then have "real_of_int ?m * 2 powi (?e - 52) = of_int sg * (2 powi 53 * 2 powi (?e - 52))"
      by (simp only: mult.assoc)
    also have "(2::real) powi 53 * 2 powi (?e - 52) = 2 powi (?e + 1)"
      using i53 by (simp only: p2_add)
    finally have r2: "?r = of_int sg * 2 powi (?e + 1)" using r by simp
    have abs_r: "\<bar>?r\<bar> = 2 powi (?e + 1)"
      using sg(2) by (auto simp: r2 abs_mult)
    have "(2::real) powi (?e + 1) < 2 powi (?e + 1 + 1)"
      by (intro power_int_strict_increasing) simp_all
    then have "expo ?r = ?e + 1"
      using abs_r e1023 expo_range [of x] by (intro expo_eq) simp_all
    then have "expo (of_int sg * 2 powi (?e + 1)) \<le> (?e + 1) + 52" using r2 by simp
    then show ?thesis using int_scaled_fix [of sg "?e + 1"] r2 by simp
  qed
qed

section \<open>Properties of input processing\<close>


lemma clamp_move_zero: "0 \<le> c \<Longrightarrow> clamp_move (Fin c) (Fin 0) = Fin 0"
  by (simp add: clamp_move_def py_min_def py_max_def)


lemma clamp_world_in_world: "in_world (clamp_world v)"
  by (cases v) (auto simp: clamp_world_def py_min_def py_max_def in_world_def)

lemma clamp_world_idem: "in_world v \<Longrightarrow> clamp_world v = v"
  by (cases v) (auto simp: clamp_world_def py_min_def py_max_def in_world_def)

lemma fadd_zero: "in_world v \<Longrightarrow> is_double v \<Longrightarrow> fadd v (Fin 0) = v"
  by (cases v) (auto simp: in_world_def is_double_def to_float_def)





lemma apply_input_present:
  assumes "map_of (state_players (state room)) pid = Some p"
  shows "map_of (state_players (state (apply_input parse cap room pid msg))) pid =
         Some (p\<lparr>px := clamp_world (fadd (px p) (clamp_move cap (fst (input_delta parse msg)))),
                 py := clamp_world (fadd (py p) (clamp_move cap (snd (input_delta parse msg))))\<rparr>)"
  using assms
  by (simp add: apply_input_def Let_def update_conv' split: prod.splits)

lemma apply_input_absent:
  "map_of (state_players (state room)) pid = None \<Longrightarrow> apply_input parse cap room pid msg = room"
  by (simp add: apply_input_def)

lemma apply_input_other:
  "q \<noteq> pid \<Longrightarrow>
   map_of (state_players (state (apply_input parse cap room pid msg))) q =
   map_of (state_players (state room)) q"
  by (simp add: apply_input_def Let_def update_conv' split: option.splits prod.splits)

lemma scenario_room_p1:
  "map_of (state_players (state scenario_room)) ''p1'' = Some (spawn 180 300)"
  by (simp add: scenario_room_def create_room_with_pair_def Let_def)

lemma spawn_in_world: "in_world (px (spawn 180 300)) \<and> in_world (py (spawn 180 300))"
  by (simp add: spawn_def in_world_def)

lemma spawn_is_double: "is_double (px (spawn 180 300)) \<and> is_double (py (spawn 180 300))"
  by (simp add: spawn_def is_double_def round_double_numeral)

text \<open>\<open>apply_input\<close> stores doubles only.\<close>

lemma is_double_clamp_world_fadd: "is_double (clamp_world (fadd a b))"
proof -
  have c: "\<And>v. is_double v \<Longrightarrow> is_double (clamp_world v)"
  proof -
    fix v assume "is_double v"
    then show "is_double (clamp_world v)"
      by (cases v)
         (auto simp: clamp_world_def py_min_def py_max_def is_double_def round_double_numeral)
  qed
  have "is_double (fadd a b)"
    by (cases a; cases b) (auto simp: is_double_def to_float_def round_double_idem)
  then show ?thesis by (rule c)
qed

lemma apply_input_doubles:
  assumes "room_doubles room"
  shows "room_doubles (apply_input parse cap room pid msg)"
proof (cases "map_of (state_players (state room)) pid")
  case None
  then show ?thesis using assms by (simp add: apply_input_absent)
next
  case (Some p)
  show ?thesis
    unfolding room_doubles_def
  proof (intro allI impI)
    fix q p'
    assume h: "map_of (state_players (state (apply_input parse cap room pid msg))) q = Some p'"
    show "is_double (px p') \<and> is_double (py p')"
    proof (cases "q = pid")
      case True
      with h apply_input_present [OF Some, of parse cap msg] show ?thesis
        by (auto simp: is_double_clamp_world_fadd)
    next
      case False
      with h assms show ?thesis
        by (simp add: apply_input_other room_doubles_def)
    qed
  qed
qed

lemma apply_inputs_doubles:
  "room_doubles room \<Longrightarrow> room_doubles (apply_inputs parse cap room inputs)"
  by (induction inputs arbitrary: room) (auto simp: apply_input_doubles)

lemma created_room_doubles:
  "room_doubles (fst (create_room_with_pair rid ta tb a b s))"
  by (simp add: create_room_with_pair_def room_doubles_def spawn_def is_double_def Let_def
      round_double_numeral)

lemmas eval_input =
  scenario_room_def create_room_with_pair_def Let_def apply_input_def input_delta_def
  dict_get_def int_to_float_def clamp_move_def clamp_world_def py_min_def py_max_def spawn_def
  to_float_def round_double_numeral






lemma apply_input_in_world:
  assumes "room_in_world room"
  shows "room_in_world (apply_input parse cap room pid msg)"
proof (cases "map_of (state_players (state room)) pid")
  case None
  then show ?thesis using assms by (simp add: apply_input_absent)
next
  case (Some p)
  show ?thesis
    unfolding room_in_world_def
  proof (intro allI impI)
    fix q p'
    assume h: "map_of (state_players (state (apply_input parse cap room pid msg))) q = Some p'"
    show "in_world (px p') \<and> in_world (py p')"
    proof (cases "q = pid")
      case True
      with h apply_input_present [OF Some, of parse cap msg] show ?thesis
        by (auto simp: clamp_world_in_world)
    next
      case False
      with h assms show ?thesis
        by (simp add: apply_input_other room_in_world_def)
    qed
  qed
qed

lemma apply_inputs_in_world:
  "room_in_world room \<Longrightarrow> room_in_world (apply_inputs parse cap room inputs)"
  by (induction inputs arbitrary: room) (auto simp: apply_input_in_world)

lemma created_room_in_world:
  "room_in_world (fst (create_room_with_pair rid ta tb a b s))"
  by (simp add: create_room_with_pair_def room_in_world_def spawn_def in_world_def Let_def)

text \<open>
  C2. Starting from the room \<open>create_room_with_pair\<close> builds (the two spawn positions),
  after any sequence of \<open>apply_input\<close> calls, with any player ids, messages and cap, every
  player state of the room has both coordinates finite and between 0 and 5000; and the
  world clamp leaves a value already in that range unchanged.
\<close>

theorem positions_stay_in_world:
  "(\<forall>pid p. map_of (state_players (state
        (apply_inputs parse cap (fst (create_room_with_pair rid ta tb a b s)) inputs))) pid = Some p
      \<longrightarrow> in_world (px p) \<and> in_world (py p))
   \<and> (\<forall>v. in_world v \<longrightarrow> clamp_world v = v)"
  using apply_inputs_in_world [OF created_room_in_world, of parse cap rid ta tb a b s inputs]
  by (simp add: room_in_world_def clamp_world_idem)

theorem positions_stay_in_world_witness:
  "map_of (state_players (state (apply_inputs (map_of []) PInf
       (fst (create_room_with_pair ''room-a1b2c3'' 0 0 (1::nat) 2 init_server))
       [(''p2'', [(''dx'', JFloat PInf)]), (''p1'', [(''dy'', JInt (- 7000))])]))) ''p2''
     = Some (spawn 5000 300)
   \<and> in_world (px (spawn 5000 300)) \<and> in_world (py (spawn 5000 300))
   \<and> in_world (Fin 5000) \<and> clamp_world (Fin 5000) = Fin 5000"
proof -
  have e: "map_of (state_players (state (apply_inputs (map_of []) PInf
       (fst (create_room_with_pair ''room-a1b2c3'' 0 0 (1::nat) 2 init_server))
       [(''p2'', [(''dx'', JFloat PInf)]), (''p1'', [(''dy'', JInt (- 7000))])]))) ''p2''
     = Some (spawn 5000 300)"
    by (simp add: eval_input)
  have w: "in_world (Fin 5000)"
    by (simp add: in_world_def)
  show ?thesis
    using e w positions_stay_in_world [of "map_of []" PInf "''room-a1b2c3''" 0 0 "1::nat" 2
        init_server "[(''p2'', [(''dx'', JFloat PInf)]), (''p1'', [(''dy'', JInt (- 7000))])]"]
    by blast
qed

lemma input_delta_uncoercible:
  "uncoercible parse msg ''dx'' \<or> uncoercible parse msg ''dy'' \<Longrightarrow>
   input_delta parse msg = (Fin 0, Fin 0)"
  by (auto simp: uncoercible_def input_delta_def dict_get_def split: option.splits)

lemma input_delta_missing_dx:
  "map_of msg ''dx'' = None \<Longrightarrow> fst (input_delta parse msg) = Fin 0"
  by (auto simp: input_delta_def dict_get_def split: option.splits)

lemma input_delta_missing_dy:
  "map_of msg ''dy'' = None \<Longrightarrow> snd (input_delta parse msg) = Fin 0"
  by (auto simp: input_delta_def dict_get_def split: option.splits)

lemma input_delta_only_dy:
  "map_of msg ''dx'' = None \<Longrightarrow> map_of msg ''dy'' = Some v \<Longrightarrow> py_float parse v = Some d \<Longrightarrow>
   input_delta parse msg = (Fin 0, d)"
  by (simp add: input_delta_def dict_get_def)

lemma input_delta_only_dx:
  "map_of msg ''dy'' = None \<Longrightarrow> map_of msg ''dx'' = Some v \<Longrightarrow> py_float parse v = Some d \<Longrightarrow>
   input_delta parse msg = (d, Fin 0)"
  by (simp add: input_delta_def dict_get_def)

text \<open>
  C8 (as the code has it). With a finite cap \<open>c \<ge> 0\<close> and a player inside the world
  (its coordinates doubles): if \<open>dx\<close> or \<open>dy\<close> is present but cannot be coerced to a
  float, the whole delta is (0, 0) and the player's state is unchanged; a field that is
  merely missing defaults to 0 on its own axis only, so that axis keeps its coordinate,
  while the other field, if it coerces to \<open>d\<close>, is still applied: its coordinate
  becomes the world clamp of the old coordinate plus \<open>d\<close> clamped to the cap.
\<close>

theorem apply_input_bad_field:
  "map_of (state_players (state room)) pid = Some p \<and> in_world (px p) \<and> in_world (py p)
     \<and> is_double (px p) \<and> is_double (py p) \<and> 0 \<le> c \<longrightarrow>
   (\<exists>p'. map_of (state_players (state (apply_input parse (Fin c) room pid msg))) pid = Some p'
      \<and> (uncoercible parse msg ''dx'' \<or> uncoercible parse msg ''dy'' \<longrightarrow> p' = p)
      \<and> (map_of msg ''dx'' = None \<longrightarrow> px p' = px p)
      \<and> (map_of msg ''dy'' = None \<longrightarrow> py p' = py p)
      \<and> (\<forall>v d. map_of msg ''dx'' = None \<and> map_of msg ''dy'' = Some v
              \<and> py_float parse v = Some d \<longrightarrow>
            py p' = clamp_world (fadd (py p) (clamp_move (Fin c) d)))
      \<and> (\<forall>v d. map_of msg ''dy'' = None \<and> map_of msg ''dx'' = Some v
              \<and> py_float parse v = Some d \<longrightarrow>
            px p' = clamp_world (fadd (px p) (clamp_move (Fin c) d))))"
proof
  assume h: "map_of (state_players (state room)) pid = Some p \<and> in_world (px p)
    \<and> in_world (py p) \<and> is_double (px p) \<and> is_double (py p) \<and> 0 \<le> c"
  then have z: "clamp_world (fadd (px p) (clamp_move (Fin c) (Fin 0))) = px p"
    "clamp_world (fadd (py p) (clamp_move (Fin c) (Fin 0))) = py p"
    by (simp_all add: clamp_move_zero fadd_zero clamp_world_idem)
  from h have present: "map_of (state_players (state room)) pid = Some p"
    by simp
  let ?p' = "p\<lparr>px := clamp_world (fadd (px p) (clamp_move (Fin c) (fst (input_delta parse msg)))),
               py := clamp_world (fadd (py p) (clamp_move (Fin c) (snd (input_delta parse msg))))\<rparr>"
  have 0: "map_of (state_players (state (apply_input parse (Fin c) room pid msg))) pid = Some ?p'"
    by (rule apply_input_present [OF present])
  have 1: "uncoercible parse msg ''dx'' \<or> uncoercible parse msg ''dy'' \<longrightarrow> ?p' = p"
    using z by (auto simp: input_delta_uncoercible)
  have 2: "map_of msg ''dx'' = None \<longrightarrow> px ?p' = px p"
    using z by (simp add: input_delta_missing_dx)
  have 3: "map_of msg ''dy'' = None \<longrightarrow> py ?p' = py p"
    using z by (simp add: input_delta_missing_dy)
  have 4: "\<forall>v d. map_of msg ''dx'' = None \<and> map_of msg ''dy'' = Some v
              \<and> py_float parse v = Some d \<longrightarrow>
            py ?p' = clamp_world (fadd (py p) (clamp_move (Fin c) d))"
    by (auto simp: input_delta_only_dy)
  have 5: "\<forall>v d. map_of msg ''dy'' = None \<and> map_of msg ''dx'' = Some v
              \<and> py_float parse v = Some d \<longrightarrow>
            px ?p' = clamp_world (fadd (px p) (clamp_move (Fin c) d))"
    by (auto simp: input_delta_only_dx)
  show "\<exists>p'. map_of (state_players (state (apply_input parse (Fin c) room pid msg))) pid = Some p'
      \<and> (uncoercible parse msg ''dx'' \<or> uncoercible parse msg ''dy'' \<longrightarrow> p' = p)
      \<and> (map_of msg ''dx'' = None \<longrightarrow> px p' = px p)
      \<and> (map_of msg ''dy'' = None \<longrightarrow> py p' = py p)
      \<and> (\<forall>v d. map_of msg ''dx'' = None \<and> map_of msg ''dy'' = Some v
              \<and> py_float parse v = Some d \<longrightarrow>
            py p' = clamp_world (fadd (py p) (clamp_move (Fin c) d)))
      \<and> (\<forall>v d. map_of msg ''dy'' = None \<and> map_of msg ''dx'' = Some v
              \<and> py_float parse v = Some d \<longrightarrow>
            px p' = clamp_world (fadd (px p) (clamp_move (Fin c) d)))"
    using 0 1 2 3 4 5 by (intro exI [of _ ?p'] conjI)
qed

theorem apply_input_bad_field_witness:
  "map_of (state_players (state scenario_room)) ''p1'' = Some (spawn 180 300)
   \<and> in_world (px (spawn 180 300)) \<and> in_world (py (spawn 180 300))
   \<and> is_double (px (spawn 180 300)) \<and> is_double (py (spawn 180 300)) \<and> (0::real) \<le> 8
   \<and> uncoercible (map_of []) [(''dx'', JStr ''fast''), (''dy'', JInt 5)] ''dx''
   \<and> map_of (state_players (state (apply_input (map_of []) (Fin 8) scenario_room ''p1''
        [(''dx'', JStr ''fast''), (''dy'', JInt 5)]))) ''p1'' = Some (spawn 180 300)
   \<and> map_of [(''dx'', JInt 5), (''dz'', JInt 5)] ''dy'' = None
   \<and> map_of [(''dx'', JInt 5), (''dz'', JInt 5)] ''dx'' = Some (JInt 5)
   \<and> py_float (map_of []) (JInt 5) = Some (Fin 5)
   \<and> (\<exists>p'. map_of (state_players (state (apply_input (map_of []) (Fin 8) scenario_room ''p1''
        [(''dx'', JInt 5), (''dz'', JInt 5)]))) ''p1'' = Some p' \<and> py p' = py (spawn 180 300)
        \<and> px p' = clamp_world (fadd (px (spawn 180 300)) (clamp_move (Fin 8) (Fin 5)))
        \<and> px p' = Fin 185)"
proof -
  let ?m1 = "[(''dx'', JStr ''fast''), (''dy'', JInt 5)]"
  let ?m2 = "[(''dx'', JInt 5), (''dz'', JInt 5)]"
  have u: "uncoercible (map_of []) ?m1 ''dx''"
    by (simp add: uncoercible_def)
  have m: "map_of ?m2 ''dy'' = None" "map_of ?m2 ''dx'' = Some (JInt 5)"
    "py_float (map_of []) (JInt 5) = Some (Fin 5)"
    by (simp_all add: int_to_float_def round_double_numeral)
  have e: "clamp_world (fadd (px (spawn 180 300)) (clamp_move (Fin 8) (Fin 5))) = Fin 185"
    by (simp add: eval_input)
  have h: "map_of (state_players (state scenario_room)) ''p1'' = Some (spawn 180 300)
      \<and> in_world (px (spawn 180 300)) \<and> in_world (py (spawn 180 300))
      \<and> is_double (px (spawn 180 300)) \<and> is_double (py (spawn 180 300)) \<and> (0::real) \<le> 8"
    using scenario_room_p1 spawn_in_world spawn_is_double by simp
  obtain p1 where p1: "map_of (state_players (state (apply_input (map_of []) (Fin 8)
        scenario_room ''p1'' ?m1))) ''p1'' = Some p1" "p1 = spawn 180 300"
    using apply_input_bad_field [of scenario_room "''p1''" "spawn 180 300" 8 "map_of []" ?m1,
        rule_format, OF h] u
    by blast
  obtain p2 where p2: "map_of (state_players (state (apply_input (map_of []) (Fin 8)
        scenario_room ''p1'' ?m2))) ''p1'' = Some p2" "py p2 = py (spawn 180 300)"
      "px p2 = clamp_world (fadd (px (spawn 180 300)) (clamp_move (Fin 8) (Fin 5)))"
    using apply_input_bad_field [of scenario_room "''p1''" "spawn 180 300" 8 "map_of []" ?m2,
        rule_format, OF h] m
    by blast
  have "\<exists>p'. map_of (state_players (state (apply_input (map_of []) (Fin 8) scenario_room ''p1''
        ?m2))) ''p1'' = Some p' \<and> py p' = py (spawn 180 300)
        \<and> px p' = clamp_world (fadd (px (spawn 180 300)) (clamp_move (Fin 8) (Fin 5)))
        \<and> px p' = Fin 185"
    using p2 e by simp
  then show ?thesis
    using h u m p1 by simp
qed

text \<open>
  The claim as written fails when a field is only missing: with \<open>dx\<close> absent and
  \<open>dy = 5\<close>, player p1 moves from (180, 300) to (180, 305).
\<close>

theorem apply_input_missing_dx_moves:
  "map_of [(''dy'', JInt 5)] ''dx'' = None
   \<and> map_of (state_players (state scenario_room)) ''p1'' = Some (spawn 180 300)
   \<and> in_world (px (spawn 180 300)) \<and> in_world (py (spawn 180 300))
   \<and> map_of (state_players (state (apply_input (map_of []) (Fin 8) scenario_room ''p1''
        [(''dy'', JInt 5)]))) ''p1'' = Some (spawn 180 305)
   \<and> py (spawn 180 305) \<noteq> py (spawn 180 300)"
  by (simp add: eval_input in_world_def)

section \<open>Properties of the snapshot period\<close>

text \<open>
  C9 (as the code has it). The sleep between two iterations is \<open>1 / max(1, rate)\<close>
  seconds: \<open>1 / rate\<close> for every rate of at least 1 Hz, and one second for every smaller
  rate; at the default rate of 20 Hz it is 0.05 seconds.
\<close>

theorem tick_dt_guarded:
  "(1 \<le> rate \<longrightarrow> tick_dt rate = 1 / rate) \<and> (rate < 1 \<longrightarrow> tick_dt rate = 1)
   \<and> tick_dt SNAPSHOT_RATE_default = 5 / 100"
  by (simp add: tick_dt_def SNAPSHOT_RATE_default_def max_def)

theorem tick_dt_guarded_witness:
  "(1::real) \<le> 40 \<and> tick_dt 40 = 1 / 40 \<and> (1 / 4 :: real) < 1 \<and> tick_dt (1 / 4) = 1"
  using tick_dt_guarded [of 40] tick_dt_guarded [of "1 / 4"]
  by simp

text \<open>At half a hertz the period is one second, not two.\<close>

theorem tick_dt_half_hertz: "tick_dt (1 / 2) = 1 \<and> tick_dt (1 / 2) \<noteq> 1 / (1 / 2)"
  by (simp add: tick_dt_def)

section \<open>Lemmas on the server operations\<close>

subsection \<open>Association lists and pending sends\<close>

lemma set_update_subset: "set (AList.update k v al) \<subseteq> insert (k, v) (set al)"
  by (induction al) auto

lemma set_delete_subset: "set (AList.delete k al) \<subseteq> set al"
  by (auto simp: AList.delete_eq)

lemma rooms_broadcast [simp]: "rooms (broadcast room m s) = rooms s"
  by (simp add: broadcast_def)

lemma rooms_safe_send [simp]: "rooms (safe_send w m s) = rooms s"
  by (simp add: safe_send_def)

subsection \<open>The operations written out\<close>

lemma create_room_new_room:
  "fst (create_room_with_pair rid ta tb a b s) = new_room rid ta tb a b"
  by (simp add: create_room_with_pair_def new_room_def Let_def)

lemma try_matchmaking_small: "card (queue s) < 2 \<Longrightarrow> try_matchmaking pop rid tm s = s"
  by (simp add: try_matchmaking_def)

lemma try_matchmaking_pairs:
  assumes "\<not> card (queue s) < 2"
  shows "try_matchmaking pop rid tm s =
     (let a = pop (queue s); b = pop (queue s - {a}); room = new_room rid (tm 0) (tm 1) a b in
      s\<lparr>rooms := AList.update rid room (rooms s),
        queue := queue s - {a} - {b},
        player_index := AList.update b (snd (players room ! 1))
           (AList.update a (snd (players room ! 0)) (player_index s)),
        outbox := outbox s @ [(a, Welcome ''p1'' rid (now_ms (tm 2))),
                              (b, Welcome ''p2'' rid (now_ms (tm 3))),
                              (a, MatchFound rid [''p1'', ''p2'']),
                              (b, MatchFound rid [''p1'', ''p2''])]\<rparr>)"
  using assms
  by (simp add: try_matchmaking_def create_room_with_pair_def new_room_def Let_def
      safe_send_def broadcast_def)

lemma queue_try_matchmaking:
  "\<not> card (queue s) < 2 \<Longrightarrow>
   queue (try_matchmaking pop rid tm s)
     = queue s - {pop (queue s)} - {pop (queue s - {pop (queue s)})}"
  by (simp add: try_matchmaking_pairs Let_def)

lemma remove_client_member:
  assumes "map_of (player_index s) w = Some conn"
    and "map_of (rooms s) (pc_room_id conn) = Some room"
  shows "remove_client w s =
     (let room2 = room\<lparr>players := AList.delete (player_id conn) (players room),
                        state := (state room)\<lparr>state_players :=
                           AList.delete (player_id conn) (state_players (state room))\<rparr>\<rparr>;
          s3 = s\<lparr>queue := queue s - {w},
                 player_index := AList.delete w (player_index s),
                 rooms := AList.update (pc_room_id conn) room2 (rooms s)\<rparr>;
          s4 = broadcast room2 (PlayerLeft (player_id conn) (room_id room)) s3
      in if players room2 = [] then s4\<lparr>rooms := AList.delete (room_id room) (rooms s4)\<rparr> else s4)"
  using assms
  by (auto simp: remove_client_def Let_def broadcast_def)

lemma remove_client_eq:
  "remove_client w s =
     (case map_of (player_index s) w of
        None \<Rightarrow> s\<lparr>queue := queue s - {w}\<rparr>
      | Some conn \<Rightarrow>
          (case map_of (rooms s) (pc_room_id conn) of
             None \<Rightarrow> s\<lparr>queue := queue s - {w}, player_index := AList.delete w (player_index s)\<rparr>
           | Some room \<Rightarrow>
               let room2 = drop_player (player_id conn) room;
                   s3 = s\<lparr>queue := queue s - {w},
                          player_index := AList.delete w (player_index s),
                          rooms := AList.update (pc_room_id conn) room2 (rooms s)\<rparr>;
                   s4 = broadcast room2 (PlayerLeft (player_id conn) (room_id room)) s3
               in if players room2 = []
                  then s4\<lparr>rooms := AList.delete (room_id room) (rooms s4)\<rparr> else s4))"
  by (auto simp: remove_client_def Let_def broadcast_def drop_player_def split: option.splits)

lemma snapshot_room_eq:
  "snapshot_room t k s =
     (case map_of (rooms s) k of
        None \<Rightarrow> s
      | Some room \<Rightarrow>
          broadcast (tick_room room)
            (Snapshot (room_id room) (state (tick_room room)) (now_ms t))
            (s\<lparr>rooms := AList.update k (tick_room room) (rooms s)\<rparr>))"
  by (simp add: snapshot_room_def tick_room_def Let_def split: option.splits)

lemma rooms_ws_message:
  fixes s :: "'ws server"
  shows "rooms (ws_message parse cap t w msg s) = rooms s
   \<or> (\<exists>(conn :: 'ws PlayerConn) room. map_of (rooms s) (pc_room_id conn) = Some room
        \<and> rooms (ws_message parse cap t w msg s)
            = AList.update (pc_room_id conn) (apply_input parse cap room (player_id conn) msg)
                (rooms s))"
  by (auto simp: ws_message_def split: option.splits)

lemma apply_input_keys:
  "map fst (state_players (state (apply_input parse cap room pid msg)))
     = map fst (state_players (state room))"
  by (auto simp: apply_input_def Let_def update_keys map_of_eq_None_iff
      split: option.splits prod.splits)

lemma apply_input_frame:
  "room_id (apply_input parse cap room pid msg) = room_id room"
  "players (apply_input parse cap room pid msg) = players room"
  "tick (state (apply_input parse cap room pid msg)) = tick (state room)"
  by (auto simp: apply_input_def Let_def split: option.splits prod.splits)

subsection \<open>Popping two connections\<close>

lemma pop_two:
  assumes "pop_ok pop" "finite q" "2 \<le> card q"
  shows "pop q \<in> q" "pop (q - {pop q}) \<in> q" "pop (q - {pop q}) \<noteq> pop q"
    "card (q - {pop q} - {pop (q - {pop q})}) = card q - 2"
proof -
  have ne: "q \<noteq> {}" using assms(3) by auto
  show a: "pop q \<in> q" using assms(1,2) ne by (simp add: pop_ok_def)
  have c1: "card (q - {pop q}) = card q - 1" using a assms(2) by simp
  then have "0 < card (q - {pop q})" using assms(3) by simp
  then have ne1: "q - {pop q} \<noteq> {}" by (auto simp: card_gt_0_iff)
  have "finite (q - {pop q})" using assms(2) by simp
  with assms(1) ne1 have b: "pop (q - {pop q}) \<in> q - {pop q}"
    unfolding pop_ok_def by blast
  then show "pop (q - {pop q}) \<in> q" "pop (q - {pop q}) \<noteq> pop q" by auto
  show "card (q - {pop q} - {pop (q - {pop q})}) = card q - 2"
    using b c1 assms(2) by simp
qed

lemma pop_ok_Max: "pop_ok (Max :: nat set \<Rightarrow> nat)"
  by (simp add: pop_ok_def)

lemma try_matchmaking_queue_bound:
  assumes "pop_ok pop" "finite (queue s)" "card (queue s) \<le> 2"
  shows "finite (queue (try_matchmaking pop rid tm s))
     \<and> card (queue (try_matchmaking pop rid tm s)) \<le> 1"
proof (cases "card (queue s) < 2")
  case True
  then show ?thesis using assms(2) by (simp add: try_matchmaking_small)
next
  case False
  then have "2 \<le> card (queue s)" by simp
  then have "card (queue s - {pop (queue s)} - {pop (queue s - {pop (queue s)})})
      = card (queue s) - 2"
    using pop_two(4) [OF assms(1,2)] by blast
  then have "card (queue (try_matchmaking pop rid tm s)) \<le> 1"
    using assms(3) by (simp add: queue_try_matchmaking [OF False])
  moreover have "finite (queue (try_matchmaking pop rid tm s))"
    using assms(2) by (simp add: queue_try_matchmaking [OF False])
  ultimately show ?thesis by simp
qed

subsection \<open>Invariants of the room registry\<close>

lemma registry_ok_update:
  "registry_ok P s \<Longrightarrow> P k r \<Longrightarrow> rooms s' = AList.update k r (rooms s) \<Longrightarrow> registry_ok P s'"
  using set_update_subset [of k r "rooms s"]
  by (auto simp: registry_ok_def distinct_update)

lemma registry_ok_delete:
  "registry_ok P s \<Longrightarrow> rooms s' = AList.delete k (rooms s) \<Longrightarrow> registry_ok P s'"
  using set_delete_subset [of k "rooms s"]
  by (auto simp: registry_ok_def distinct_delete)

lemma registry_ok_same: "registry_ok P s \<Longrightarrow> rooms s' = rooms s \<Longrightarrow> registry_ok P s'"
  by (simp add: registry_ok_def)

lemma registry_ok_lookup: "registry_ok P s \<Longrightarrow> map_of (rooms s) k = Some r \<Longrightarrow> P k r"
  by (auto simp: registry_ok_def dest: map_of_SomeD)

lemma registry_ok_snapshot_room:
  assumes "registry_ok P s" and tck: "\<And>k room. P k room \<Longrightarrow> P k (tick_room room)"
  shows "registry_ok P (snapshot_room t k s)"
proof (cases "map_of (rooms s) k")
  case None
  then show ?thesis using assms(1) by (simp add: snapshot_room_eq)
next
  case (Some room)
  then have "P k (tick_room room)"
    using assms registry_ok_lookup by blast
  then have "registry_ok P (s\<lparr>rooms := AList.update k (tick_room room) (rooms s)\<rparr>)"
    using registry_ok_update [OF assms(1), of k "tick_room room"] by simp
  then show ?thesis
    using Some registry_ok_same by (fastforce simp: snapshot_room_eq)
qed

lemma registry_ok_snapshot_rooms:
  assumes tck: "\<And>k room. P k room \<Longrightarrow> P k (tick_room room)"
  shows "registry_ok P s \<Longrightarrow> registry_ok P (snapshot_rooms tm i ks s)"
  by (induction ks arbitrary: i s) (auto simp: registry_ok_snapshot_room tck)

lemma registry_ok_try_matchmaking:
  assumes "registry_ok P s" and new: "\<And>rid ta tb a b. P rid (new_room rid ta tb a b)"
  shows "registry_ok P (try_matchmaking pop rid tm s)"
proof (cases "card (queue s) < 2")
  case True
  then show ?thesis using assms(1) by (simp add: try_matchmaking_small)
next
  case False
  have "rooms (try_matchmaking pop rid tm s) =
      AList.update rid (new_room rid (tm 0) (tm 1) (pop (queue s)) (pop (queue s - {pop (queue s)})))
        (rooms s)"
    by (simp add: try_matchmaking_pairs [OF False] Let_def)
  then show ?thesis
    using registry_ok_update [OF assms(1) new] by blast
qed

lemma registry_ok_ws_connect:
  assumes "registry_ok P s" and new: "\<And>rid ta tb a b. P rid (new_room rid ta tb a b)"
  shows "registry_ok P (ws_connect pop rid tm w s)"
proof -
  let ?s2 = "(safe_send w (QueueJoined PUBLIC_QUEUE (now_ms (tm 0))) s)
               \<lparr>queue := insert w (queue (safe_send w (QueueJoined PUBLIC_QUEUE (now_ms (tm 0))) s))\<rparr>"
  have "registry_ok P ?s2"
    using registry_ok_same [OF assms(1), of ?s2] by simp
  then have "registry_ok P (try_matchmaking pop rid (\<lambda>n. tm (Suc n)) ?s2)"
    using new by (rule registry_ok_try_matchmaking)
  then show ?thesis
    by (simp add: ws_connect_def Let_def)
qed

lemma registry_ok_ws_message:
  fixes s :: "'ws server"
  assumes "registry_ok P s"
    and inp: "\<And>k parse cap room pid msg. P k room \<Longrightarrow> P k (apply_input parse cap room pid msg)"
  shows "registry_ok P (ws_message parse cap t w msg s)"
  using rooms_ws_message [of parse cap t w msg s]
proof
  assume "rooms (ws_message parse cap t w msg s) = rooms s"
  then show ?thesis using assms(1) registry_ok_same by blast
next
  assume "\<exists>(conn :: 'ws PlayerConn) room. map_of (rooms s) (pc_room_id conn) = Some room
        \<and> rooms (ws_message parse cap t w msg s)
            = AList.update (pc_room_id conn) (apply_input parse cap room (player_id conn) msg)
                (rooms s)"
  then obtain conn :: "'ws PlayerConn" and room
    where c: "map_of (rooms s) (pc_room_id conn) = Some room"
    "rooms (ws_message parse cap t w msg s)
       = AList.update (pc_room_id conn) (apply_input parse cap room (player_id conn) msg) (rooms s)"
    by blast
  have "P (pc_room_id conn) (apply_input parse cap room (player_id conn) msg)"
    using registry_ok_lookup [OF assms(1) c(1)] inp by blast
  then show ?thesis
    using registry_ok_update [OF assms(1) _ c(2)] by blast
qed

lemma registry_ok_remove_client:
  assumes "registry_ok P s"
    and del: "\<And>k room pid. P k room \<Longrightarrow> P k (drop_player pid room)"
  shows "registry_ok P (remove_client w s)"
proof (cases "map_of (player_index s) w")
  case None
  then show ?thesis
    using registry_ok_same [OF assms(1), of "s\<lparr>queue := queue s - {w}\<rparr>"]
    by (simp add: remove_client_eq)
next
  case (Some conn)
  show ?thesis
  proof (cases "map_of (rooms s) (pc_room_id conn)")
    case None
    then show ?thesis
      using Some registry_ok_same [OF assms(1),
          of "s\<lparr>queue := queue s - {w}, player_index := AList.delete w (player_index s)\<rparr>"]
      by (simp add: remove_client_eq)
  next
    case room: (Some room)
    let ?room2 = "drop_player (player_id conn) room"
    let ?s3 = "s\<lparr>queue := queue s - {w}, player_index := AList.delete w (player_index s),
                 rooms := AList.update (pc_room_id conn) ?room2 (rooms s)\<rparr>"
    have "P (pc_room_id conn) ?room2"
      using assms(1) room del registry_ok_lookup by blast
    then have 3: "registry_ok P ?s3"
      using registry_ok_update [OF assms(1), of "pc_room_id conn" ?room2 ?s3] by simp
    then have 4: "registry_ok P (broadcast ?room2 (PlayerLeft (player_id conn) (room_id room)) ?s3)"
      using registry_ok_same [OF 3] by simp
    then have 5: "registry_ok P ((broadcast ?room2 (PlayerLeft (player_id conn) (room_id room)) ?s3)
        \<lparr>rooms := AList.delete (room_id room)
           (rooms (broadcast ?room2 (PlayerLeft (player_id conn) (room_id room)) ?s3))\<rparr>)"
      using registry_ok_delete [OF 4] by simp
    show ?thesis
      using 4 5 Some room by (simp add: remove_client_eq Let_def)
  qed
qed

lemma reachable_registry_ok:
  assumes "reachable s"
    and new: "\<And>rid ta tb a b. P rid (new_room rid ta tb a b)"
    and inp: "\<And>k parse cap room pid msg. P k room \<Longrightarrow> P k (apply_input parse cap room pid msg)"
    and del: "\<And>k room pid. P k room \<Longrightarrow> P k (drop_player pid room)"
    and tck: "\<And>k room. P k room \<Longrightarrow> P k (tick_room room)"
  shows "registry_ok P s"
  using assms(1)
proof (induction rule: reachable.induct)
  case r_init
  show ?case by (simp add: registry_ok_def init_server_def)
next
  case (r_connect s pop rid tm w)
  then show ?case by (simp add: registry_ok_ws_connect new)
next
  case (r_message s parse cap t w msg)
  then show ?case by (simp add: registry_ok_ws_message inp)
next
  case (r_remove s w)
  then show ?case by (simp add: registry_ok_remove_client del)
next
  case (r_snapshot s tm)
  then show ?case by (simp add: snapshot_iteration_def registry_ok_snapshot_rooms tck)
qed

lemma reachable_registry_ids:
  "reachable s \<Longrightarrow> registry_ok (\<lambda>k r. room_id r = k) s"
  by (rule reachable_registry_ok)
     (simp_all add: new_room_def apply_input_frame drop_player_def tick_room_def)

subsection \<open>Frame of \<open>apply_input\<close>\<close>

lemma apply_input_vitals:
  assumes "vitals_full (state room)"
  shows "vitals_full (state (apply_input parse cap room pid msg))"
proof (cases "map_of (state_players (state room)) pid")
  case None
  then show ?thesis using assms by (simp add: apply_input_absent)
next
  case (Some p)
  then have "(pid, p) \<in> set (state_players (state room))" by (rule map_of_SomeD)
  then have p: "hp p = 100 \<and> mana p = 100" using assms by (auto simp: vitals_full_def)
  show ?thesis
    using Some p assms set_update_subset [of pid _ "state_players (state room)"]
    by (fastforce simp: apply_input_def Let_def vitals_full_def split: prod.splits)
qed

lemma drop_player_vitals:
  "vitals_full (state room) \<Longrightarrow> vitals_full (state (drop_player pid room))"
  using set_delete_subset [of pid "state_players (state room)"]
  by (auto simp: vitals_full_def drop_player_def)

lemma new_room_vitals: "vitals_full (state (new_room rid ta tb a b))"
  by (simp add: new_room_def vitals_full_def spawn_def)

lemma tick_room_vitals: "vitals_full (state room) \<Longrightarrow> vitals_full (state (tick_room room))"
  by (simp add: tick_room_def vitals_full_def)

lemma reachable_vitals:
  assumes "reachable s"
  shows "registry_ok (\<lambda>k r. vitals_full (state r)) s"
  using assms
proof (rule reachable_registry_ok)
  show "\<And>rid ta tb (a :: 'a) b. vitals_full (state (new_room rid ta tb a b))"
    by (rule new_room_vitals)
  show "\<And>parse cap (room :: 'a Room) pid msg. vitals_full (state room) \<Longrightarrow>
      vitals_full (state (apply_input parse cap room pid msg))"
    by (rule apply_input_vitals)
  show "\<And>(room :: 'a Room) pid. vitals_full (state room) \<Longrightarrow>
      vitals_full (state (drop_player pid room))"
    by (rule drop_player_vitals)
  show "\<And>room :: 'a Room. vitals_full (state room) \<Longrightarrow> vitals_full (state (tick_room room))"
    by (rule tick_room_vitals)
qed

text \<open>In every reachable state the stored coordinates are doubles.\<close>

lemma new_room_doubles: "room_doubles (new_room rid ta tb a b)"
  by (simp add: new_room_def room_doubles_def spawn_def is_double_def round_double_numeral)

lemma tick_room_doubles: "room_doubles room \<Longrightarrow> room_doubles (tick_room room)"
  by (simp add: tick_room_def room_doubles_def)

lemma drop_player_doubles: "room_doubles room \<Longrightarrow> room_doubles (drop_player pid room)"
  by (simp add: drop_player_def room_doubles_def delete_conv')

lemma reachable_doubles:
  assumes "reachable s"
  shows "registry_ok (\<lambda>k r. room_doubles r) s"
  using assms
proof (rule reachable_registry_ok)
  show "\<And>rid ta tb (a :: 'a) b. room_doubles (new_room rid ta tb a b)"
    by (rule new_room_doubles)
  show "\<And>parse cap (room :: 'a Room) pid msg. room_doubles room \<Longrightarrow>
      room_doubles (apply_input parse cap room pid msg)"
    by (rule apply_input_doubles)
  show "\<And>(room :: 'a Room) pid. room_doubles room \<Longrightarrow> room_doubles (drop_player pid room)"
    by (rule drop_player_doubles)
  show "\<And>room :: 'a Room. room_doubles room \<Longrightarrow> room_doubles (tick_room room)"
    by (rule tick_room_doubles)
qed

lemma reachable_coordinates_doubles:
  "reachable s \<Longrightarrow> map_of (rooms s) k = Some room
     \<Longrightarrow> map_of (state_players (state room)) pid = Some p
     \<Longrightarrow> is_double (px p) \<and> is_double (py p)"
  using registry_ok_lookup [OF reachable_doubles, of s k room]
  by (simp add: room_doubles_def)

subsection \<open>The queue\<close>

lemma queue_snapshot_rooms: "queue (snapshot_rooms tm i ks s) = queue s"
  by (induction ks arbitrary: i s) (simp_all add: snapshot_room_eq broadcast_def split: option.splits)

lemma queue_ws_message: "queue (ws_message parse cap t w msg s) = queue s"
  by (simp add: ws_message_def safe_send_def split: option.splits)

lemma queue_remove_client: "queue (remove_client w s) = queue s - {w}"
  by (simp add: remove_client_eq broadcast_def Let_def split: option.splits)

lemma reachable_queue: "reachable s \<Longrightarrow> finite (queue s) \<and> card (queue s) \<le> 1"
proof (induction rule: reachable.induct)
  case r_init
  show ?case by (simp add: init_server_def)
next
  case (r_connect s pop rid tm w)
  define s2 where "s2 = (safe_send w (QueueJoined PUBLIC_QUEUE (now_ms (tm 0))) s)
               \<lparr>queue := insert w (queue s)\<rparr>"
  have q2: "queue s2 = insert w (queue s)" by (simp add: s2_def)
  have ws: "ws_connect pop rid tm w s = try_matchmaking pop rid (\<lambda>n. tm (Suc n)) s2"
    by (simp add: ws_connect_def Let_def s2_def safe_send_def)
  have f: "finite (queue s2)" using r_connect.IH q2 by simp
  have c: "card (queue s2) \<le> 2"
    using r_connect.IH q2 by (simp add: card_insert_if)
  show ?case
    unfolding ws using r_connect.hyps(2) f c by (rule try_matchmaking_queue_bound)
next
  case (r_message s parse cap t w msg)
  then show ?case by (simp add: queue_ws_message)
next
  case (r_remove s w)
  have "card (queue s - {w}) \<le> card (queue s)"
    using r_remove.IH by (simp add: card_Diff1_le)
  then show ?case using r_remove.IH by (simp add: queue_remove_client)
next
  case (r_snapshot s tm)
  then show ?case by (simp add: snapshot_iteration_def queue_snapshot_rooms)
qed

subsection \<open>One pass of the broadcaster\<close>

lemma outbox_snapshot_room:
  "outbox (snapshot_room t k s) = outbox s @ snapshot_msgs t (map_of (rooms s) k)"
  by (simp add: snapshot_room_eq snapshot_msgs_def broadcast_def tick_room_def split: option.splits)

lemma map_of_snapshot_room:
  "map_of (rooms (snapshot_room t k s)) k' =
     (if k' = k then map_option tick_room (map_of (rooms s) k) else map_of (rooms s) k')"
  by (simp add: snapshot_room_eq update_conv' split: option.splits)

lemma keys_snapshot_room: "map fst (rooms (snapshot_room t k s)) = map fst (rooms s)"
  by (auto simp: snapshot_room_eq update_keys map_of_eq_None_iff split: option.splits)

lemma keys_snapshot_rooms: "map fst (rooms (snapshot_rooms tm i ks s)) = map fst (rooms s)"
  by (induction ks arbitrary: i s) (simp_all add: keys_snapshot_room)

lemma snapshot_rooms_lookup:
  "distinct ks \<Longrightarrow>
   map_of (rooms (snapshot_rooms tm i ks s)) k =
     (if k \<in> set ks then map_option tick_room (map_of (rooms s) k) else map_of (rooms s) k)"
  by (induction ks arbitrary: i s) (auto simp: map_of_snapshot_room)

lemma snapshot_rooms_outbox:
  "distinct ks \<Longrightarrow>
   outbox (snapshot_rooms tm i ks s) =
     outbox s @ concat (map (\<lambda>jk. snapshot_msgs (tm (fst jk)) (map_of (rooms s) (snd jk)))
                          (zip [i..<i + length ks] ks))"
proof (induction ks arbitrary: i s)
  case Nil
  show ?case by simp
next
  case (Cons k ks)
  have u: "[i..<i + length (k # ks)] = i # [Suc i..<Suc i + length ks]"
    by (simp add: upt_rec)
  have c: "map (\<lambda>jk. snapshot_msgs (tm (fst jk)) (map_of (rooms (snapshot_room (tm i) k s)) (snd jk)))
             (zip [Suc i..<Suc i + length ks] ks)
         = map (\<lambda>jk. snapshot_msgs (tm (fst jk)) (map_of (rooms s) (snd jk)))
             (zip [Suc i..<Suc i + length ks] ks)"
  proof (rule map_cong [OF refl])
    fix jk assume "jk \<in> set (zip [Suc i..<Suc i + length ks] ks)"
    then have "snd jk \<in> set ks" by (metis set_zip_rightD prod.collapse)
    then have "snd jk \<noteq> k" using Cons.prems by auto
    then show "snapshot_msgs (tm (fst jk)) (map_of (rooms (snapshot_room (tm i) k s)) (snd jk))
        = snapshot_msgs (tm (fst jk)) (map_of (rooms s) (snd jk))"
      by (simp add: map_of_snapshot_room)
  qed
  have d: "distinct ks" using Cons.prems by simp
  show ?case
    unfolding snapshot_rooms.simps Cons.IH [OF d] u c
    by (simp add: outbox_snapshot_room)
qed

lemma snapshot_iteration_lookup:
  assumes "distinct (map fst (rooms s))" "map_of (rooms s) k = Some r"
  shows "map_of (rooms (snapshot_iteration tm s)) k = Some (tick_room r)"
proof -
  have "k \<in> set (map fst (rooms s))"
    using assms(2) by (metis map_of_eq_None_iff option.distinct(1) set_map)
  then show ?thesis
    using assms by (simp add: snapshot_iteration_def snapshot_rooms_lookup)
qed

lemma snapshot_loop_keys: "map fst (rooms (snapshot_loop n tms s)) = map fst (rooms s)"
  by (induction n) (simp_all add: snapshot_iteration_def keys_snapshot_rooms)

lemma snapshot_loop_tick:
  assumes "distinct (map fst (rooms s))" "map_of (rooms s) k = Some r"
  shows "\<exists>r'. map_of (rooms (snapshot_loop n tms s)) k = Some r'
           \<and> tick (state r') = tick (state r) + int n"
proof (induction n)
  case 0
  show ?case using assms(2) by simp
next
  case (Suc n)
  then obtain r' where r': "map_of (rooms (snapshot_loop n tms s)) k = Some r'"
    "tick (state r') = tick (state r) + int n" by blast
  have "distinct (map fst (rooms (snapshot_loop n tms s)))"
    using assms(1) by (simp add: snapshot_loop_keys)
  then have "map_of (rooms (snapshot_loop (Suc n) tms s)) k = Some (tick_room r')"
    using r'(1) by (simp add: snapshot_iteration_lookup)
  then show ?case using r'(2) by (simp add: tick_room_def)
qed

lemma snapshot_iteration_outbox:
  assumes "registry_ok (\<lambda>k r. room_id r = k) s" "map_of (rooms s) k = Some r"
  shows "\<exists>new. outbox (snapshot_iteration tm s) = outbox s @ new
    \<and> (\<forall>e \<in> set (players r). \<exists>t. (ws (snd e), Snapshot k (state (tick_room r)) t) \<in> set new)
    \<and> (\<forall>w st t. (w, Snapshot k st t) \<in> set new \<longrightarrow> tick st = tick (state r) + 1)"
proof -
  let ?ks = "map fst (rooms s)"
  let ?new = "concat (map (\<lambda>jk. snapshot_msgs (tm (fst jk)) (map_of (rooms s) (snd jk)))
                          (zip [0..<0 + length ?ks] ?ks))"
  have d: "distinct ?ks" using assms(1) by (simp add: registry_ok_def)
  have o: "outbox (snapshot_iteration tm s) = outbox s @ ?new"
    unfolding snapshot_iteration_def by (rule snapshot_rooms_outbox [OF d])
  have rid: "room_id r = k" using registry_ok_lookup [OF assms] .
  have kin: "k \<in> set ?ks"
    using assms(2) by (metis map_of_eq_None_iff option.distinct(1) set_map)
  then obtain j where j: "j < length ?ks" "?ks ! j = k" by (auto simp: in_set_conv_nth)
  then have z: "(j, k) \<in> set (zip [0..<0 + length ?ks] ?ks)"
    unfolding in_set_zip by (intro exI [of _ j]) simp
  have a: "\<forall>e \<in> set (players r). \<exists>t. (ws (snd e), Snapshot k (state (tick_room r)) t) \<in> set ?new"
  proof
    fix e assume "e \<in> set (players r)"
    then have "(ws (snd e), Snapshot k (state (tick_room r)) (now_ms (tm j)))
        \<in> set (snapshot_msgs (tm j) (map_of (rooms s) k))"
      using assms(2) rid by (auto simp: snapshot_msgs_def)
    then have "(ws (snd e), Snapshot k (state (tick_room r)) (now_ms (tm j))) \<in> set ?new"
      using z by force
    then show "\<exists>t. (ws (snd e), Snapshot k (state (tick_room r)) t) \<in> set ?new" by blast
  qed
  have b: "\<forall>w st t. (w, Snapshot k st t) \<in> set ?new \<longrightarrow> tick st = tick (state r) + 1"
  proof (intro allI impI)
    fix w st t assume "(w, Snapshot k st t) \<in> set ?new"
    then obtain jk where jk: "jk \<in> set (zip [0..<0 + length ?ks] ?ks)"
      "(w, Snapshot k st t) \<in> set (snapshot_msgs (tm (fst jk)) (map_of (rooms s) (snd jk)))"
      by auto
    then obtain r' where r': "map_of (rooms s) (snd jk) = Some r'"
      "room_id r' = k" "st = state (tick_room r')"
      by (cases "map_of (rooms s) (snd jk)") (auto simp: snapshot_msgs_def)
    have "room_id r' = snd jk" using registry_ok_lookup [OF assms(1) r'(1)] .
    then have "r' = r" using r' assms(2) by simp
    then show "tick st = tick (state r) + 1" using r'(3) by (simp add: tick_room_def)
  qed
  show ?thesis using o a b by blast
qed

subsection \<open>Ticks along a run\<close>

lemma step_registry_ok:
  assumes "registry_ok P s"
    and new: "\<And>rid ta tb a b. P rid (new_room rid ta tb a b)"
    and inp: "\<And>k parse cap room pid msg. P k room \<Longrightarrow> P k (apply_input parse cap room pid msg)"
    and del: "\<And>k room pid. P k room \<Longrightarrow> P k (drop_player pid room)"
    and tck: "\<And>k room. P k room \<Longrightarrow> P k (tick_room room)"
  shows "registry_ok P (step e s)"
proof (cases e)
  case (Connect pop rid tm w)
  then show ?thesis using assms(1) by (simp add: registry_ok_ws_connect new)
next
  case (Message parse cap t w msg)
  then show ?thesis using assms(1) by (simp add: registry_ok_ws_message inp)
next
  case (Disconnect w)
  then show ?thesis using assms(1) by (simp add: registry_ok_remove_client del)
next
  case (Broadcast tm)
  then show ?thesis
    using assms(1) by (simp add: snapshot_iteration_def registry_ok_snapshot_rooms tck)
qed

lemma step_registry_ids:
  "registry_ok (\<lambda>k r. room_id r = k) s \<Longrightarrow> registry_ok (\<lambda>k r. room_id r = k) (step e s)"
  by (rule step_registry_ok)
     (simp_all add: new_room_def apply_input_frame drop_player_def tick_room_def)

lemma run_registry_ids:
  "registry_ok (\<lambda>k r. room_id r = k) s \<Longrightarrow> registry_ok (\<lambda>k r. room_id r = k) (run es s)"
  by (induction es arbitrary: s) (simp_all add: step_registry_ids)

lemma map_of_ws_connect:
  assumes "rid \<noteq> k"
  shows "map_of (rooms (ws_connect pop rid tm w s)) k = map_of (rooms s) k"
proof -
  have "\<And>s' tm'. map_of (rooms (try_matchmaking pop rid tm' s')) k = map_of (rooms s') k"
  proof -
    fix s' :: "'a server" and tm'
    show "map_of (rooms (try_matchmaking pop rid tm' s')) k = map_of (rooms s') k"
    proof (cases "card (queue s') < 2")
      case True
      then show ?thesis by (simp add: try_matchmaking_small)
    next
      case False
      show ?thesis
        using assms by (simp add: try_matchmaking_pairs [OF False] Let_def update_conv')
    qed
  qed
  then show ?thesis by (simp add: ws_connect_def Let_def)
qed

lemma map_of_ws_message:
  fixes s :: "'ws server"
  assumes "map_of (rooms (ws_message parse cap t w msg s)) k = Some r1"
  shows "\<exists>r. map_of (rooms s) k = Some r \<and> tick (state r1) = tick (state r)"
  using rooms_ws_message [of parse cap t w msg s]
proof
  assume "rooms (ws_message parse cap t w msg s) = rooms s"
  then show ?thesis using assms by simp
next
  assume "\<exists>(conn :: 'ws PlayerConn) room. map_of (rooms s) (pc_room_id conn) = Some room
        \<and> rooms (ws_message parse cap t w msg s)
            = AList.update (pc_room_id conn) (apply_input parse cap room (player_id conn) msg)
                (rooms s)"
  then obtain conn :: "'ws PlayerConn" and room
    where c: "map_of (rooms s) (pc_room_id conn) = Some room"
      "rooms (ws_message parse cap t w msg s)
         = AList.update (pc_room_id conn) (apply_input parse cap room (player_id conn) msg) (rooms s)"
    by blast
  show ?thesis
    using assms c(1) unfolding c(2)
    by (cases "k = pc_room_id conn") (auto simp: update_conv' apply_input_frame)
qed

lemma map_of_remove_client:
  assumes "map_of (rooms (remove_client w s)) k = Some r1"
  shows "\<exists>r. map_of (rooms s) k = Some r \<and> tick (state r1) = tick (state r)"
proof (cases "map_of (player_index s) w")
  case None
  then show ?thesis using assms by (simp add: remove_client_eq)
next
  case (Some conn)
  show ?thesis
  proof (cases "map_of (rooms s) (pc_room_id conn)")
    case None
    then show ?thesis using assms Some by (simp add: remove_client_eq)
  next
    case room: (Some room)
    have t: "tick (state (drop_player (player_id conn) room)) = tick (state room)"
      by (simp add: drop_player_def)
    show ?thesis
      using assms Some room t
      by (cases "k = pc_room_id conn")
         (auto simp: remove_client_eq Let_def update_conv' delete_conv' split: if_splits)
  qed
qed

lemma map_of_snapshot_iteration:
  assumes "distinct (map fst (rooms s))"
    and "map_of (rooms (snapshot_iteration tm s)) k = Some r1"
  shows "\<exists>r. map_of (rooms s) k = Some r \<and> tick (state r1) = tick (state r) + 1"
proof (cases "k \<in> set (map fst (rooms s))")
  case True
  then show ?thesis
    using assms
    by (auto simp: snapshot_iteration_def snapshot_rooms_lookup tick_room_def)
next
  case False
  then have "map_of (rooms s) k = None" by (simp add: map_of_eq_None_iff)
  then show ?thesis
    using assms False by (simp add: snapshot_iteration_def snapshot_rooms_lookup)
qed

lemma step_tick_back:
  assumes "distinct (map fst (rooms s))" "\<not> mints k e"
    and "map_of (rooms (step e s)) k = Some r1"
  shows "\<exists>r. map_of (rooms s) k = Some r
           \<and> tick (state r1) = tick (state r) + (if is_broadcast e then 1 else 0)"
proof (cases e)
  case (Connect pop rid tm w)
  then show ?thesis using assms by (simp add: map_of_ws_connect)
next
  case (Message parse cap t w msg)
  then show ?thesis using assms map_of_ws_message by force
next
  case (Disconnect w)
  then show ?thesis using assms map_of_remove_client by force
next
  case (Broadcast tm)
  then show ?thesis using assms map_of_snapshot_iteration by force
qed

lemma run_tick_back:
  assumes "registry_ok (\<lambda>k r. room_id r = k) s" "list_all (\<lambda>e. \<not> mints k e) es"
    and "map_of (rooms (run es s)) k = Some r1"
  shows "\<exists>r. map_of (rooms s) k = Some r
           \<and> tick (state r1) = tick (state r) + int (broadcasts es)"
  using assms
proof (induction es arbitrary: s)
  case Nil
  then show ?case by (simp add: broadcasts_def)
next
  case (Cons e es)
  have ok: "registry_ok (\<lambda>k r. room_id r = k) (step e s)"
    using Cons.prems(1) by (rule step_registry_ids)
  have "list_all (\<lambda>e. \<not> mints k e) es" "map_of (rooms (run es (step e s))) k = Some r1"
    using Cons.prems by simp_all
  then obtain r' where r': "map_of (rooms (step e s)) k = Some r'"
    "tick (state r1) = tick (state r') + int (broadcasts es)"
    using Cons.IH [OF ok] by blast
  have "distinct (map fst (rooms s))" "\<not> mints k e"
    using Cons.prems by (simp_all add: registry_ok_def)
  then obtain r where r: "map_of (rooms s) k = Some r"
    "tick (state r') = tick (state r) + (if is_broadcast e then 1 else 0)"
    using step_tick_back [OF _ _ r'(1)] by blast
  show ?case
    using r r'(2) by (auto simp: broadcasts_def)
qed

subsection \<open>Snapshot payloads\<close>

lemma snapshots_full_append:
  "snapshots_full s \<Longrightarrow> outbox s' = outbox s @ new \<Longrightarrow>
   (\<forall>e \<in> set new. \<forall>rid st t. snd e = Snapshot rid st t \<longrightarrow> vitals_full st) \<Longrightarrow>
   snapshots_full s'"
  by (auto simp: snapshots_full_def)

lemma outbox_try_matchmaking:
  "\<exists>new. outbox (try_matchmaking pop rid tm s) = outbox s @ new
     \<and> (\<forall>e \<in> set new. \<forall>rid st t. snd e \<noteq> Snapshot rid st t)"
proof (cases "card (queue s) < 2")
  case True
  then show ?thesis by (simp add: try_matchmaking_small)
next
  case False
  show ?thesis by (simp add: try_matchmaking_pairs [OF False] Let_def)
qed

lemma outbox_ws_connect:
  "\<exists>new. outbox (ws_connect pop rid tm w s) = outbox s @ new
     \<and> (\<forall>e \<in> set new. \<forall>rid st t. snd e \<noteq> Snapshot rid st t)"
proof -
  let ?s2 = "(safe_send w (QueueJoined PUBLIC_QUEUE (now_ms (tm 0))) s)
               \<lparr>queue := insert w (queue (safe_send w (QueueJoined PUBLIC_QUEUE (now_ms (tm 0))) s))\<rparr>"
  obtain new where n: "outbox (try_matchmaking pop rid (\<lambda>n. tm (Suc n)) ?s2) = outbox ?s2 @ new"
    "\<forall>e \<in> set new. \<forall>rid st t. snd e \<noteq> Snapshot rid st t"
    using outbox_try_matchmaking by blast
  have "outbox (ws_connect pop rid tm w s)
      = outbox s @ ((w, QueueJoined PUBLIC_QUEUE (now_ms (tm 0))) # new)"
    using n(1) by (simp add: ws_connect_def Let_def safe_send_def)
  then show ?thesis using n(2) by (intro exI [of _ "(w, QueueJoined PUBLIC_QUEUE (now_ms (tm 0))) # new"]) simp
qed

lemma outbox_ws_message:
  "\<exists>new. outbox (ws_message parse cap t w msg s) = outbox s @ new
     \<and> (\<forall>e \<in> set new. \<forall>rid st t. snd e \<noteq> Snapshot rid st t)"
  by (auto simp: ws_message_def safe_send_def split: option.splits)

lemma outbox_remove_client:
  "\<exists>new. outbox (remove_client w s) = outbox s @ new
     \<and> (\<forall>e \<in> set new. \<forall>rid st t. snd e \<noteq> Snapshot rid st t)"
  by (auto simp: remove_client_eq broadcast_def Let_def split: option.splits)

lemma snapshots_full_snapshot_rooms:
  "registry_ok (\<lambda>k r. vitals_full (state r)) s \<Longrightarrow> snapshots_full s \<Longrightarrow>
   snapshots_full (snapshot_rooms tm i ks s)"
proof (induction ks arbitrary: i s)
  case Nil
  then show ?case by simp
next
  case (Cons k ks)
  have 1: "registry_ok (\<lambda>k r. vitals_full (state r)) (snapshot_room (tm i) k s)"
    using Cons.prems(1) by (rule registry_ok_snapshot_room) (simp add: tick_room_def vitals_full_def)
  have "\<forall>e \<in> set (snapshot_msgs (tm i) (map_of (rooms s) k)).
          \<forall>rid st t. snd e = Snapshot rid st t \<longrightarrow> vitals_full st"
  proof (cases "map_of (rooms s) k")
    case None
    then show ?thesis by (simp add: snapshot_msgs_def)
  next
    case (Some r)
    then have "vitals_full (state r)"
      using registry_ok_lookup [OF Cons.prems(1)] by blast
    then show ?thesis
      using Some by (auto simp: snapshot_msgs_def tick_room_def vitals_full_def)
  qed
  then have 2: "snapshots_full (snapshot_room (tm i) k s)"
    using snapshots_full_append [OF Cons.prems(2) outbox_snapshot_room] by blast
  show ?case using Cons.IH [OF 1 2] by simp
qed

lemma reachable_snapshots_full: "reachable s \<Longrightarrow> snapshots_full s"
proof (induction rule: reachable.induct)
  case r_init
  show ?case by (simp add: snapshots_full_def init_server_def)
next
  case (r_connect s pop rid tm w)
  then show ?case
    using outbox_ws_connect [of pop rid tm w s] snapshots_full_append by blast
next
  case (r_message s parse cap t w msg)
  then show ?case
    using outbox_ws_message [of parse cap t w msg s] snapshots_full_append by blast
next
  case (r_remove s w)
  then show ?case
    using outbox_remove_client [of w s] snapshots_full_append by blast
next
  case (r_snapshot s tm)
  then show ?case
    by (simp add: snapshot_iteration_def snapshots_full_snapshot_rooms reachable_vitals)
qed

subsection \<open>The scenario states\<close>

lemma scenario_server_eval:
  "scenario_server =
    \<lparr>rooms = [(''room-a1b2c3'', new_room ''room-a1b2c3'' 1 2 2 1)], queue = {},
     player_index =
       [(2, \<lparr>ws = 2, player_id = ''p1'', pc_room_id = ''room-a1b2c3'', joined_at = 1\<rparr>),
        (1, \<lparr>ws = 1, player_id = ''p2'', pc_room_id = ''room-a1b2c3'', joined_at = 2\<rparr>)],
     outbox =
       [(1, QueueJoined ''public'' 0), (2, QueueJoined ''public'' 0),
        (2, Welcome ''p1'' ''room-a1b2c3'' 3000), (1, Welcome ''p2'' ''room-a1b2c3'' 4000),
        (2, MatchFound ''room-a1b2c3'' [''p1'', ''p2'']),
        (1, MatchFound ''room-a1b2c3'' [''p1'', ''p2''])]\<rparr>"
  by (simp add: scenario_server_def ws_connect_def Let_def safe_send_def init_server_def
      try_matchmaking_small try_matchmaking_pairs new_room_def insert_Diff_if now_ms_def
      round_double_numeral PUBLIC_QUEUE_def)

lemma reachable_scenario_server: "reachable scenario_server"
  unfolding scenario_server_def
  by (intro reachable.intros pop_ok_Max)

lemma scenario_run_room:
  "map_of (rooms (run [Broadcast real, Disconnect 1, Broadcast real] scenario_server))
      ''room-a1b2c3''
     = Some \<lparr>room_id = ''room-a1b2c3'',
         players = [(''p1'', \<lparr>ws = 2, player_id = ''p1'', pc_room_id = ''room-a1b2c3'',
                               joined_at = 1\<rparr>)],
         state = \<lparr>tick = 2, state_players = [(''p1'', spawn 180 300)]\<rparr>\<rparr>"
  by (simp add: scenario_server_eval snapshot_iteration_def snapshot_room_eq tick_room_def
      broadcast_def remove_client_eq drop_player_def Let_def new_room_def AList.delete_eq)

section \<open>Properties of the server operations\<close>

text \<open>
  C3. In every reachable server state, for every room \<open>r\<close> registered under \<open>k\<close>, one
  iteration of the snapshot broadcaster leaves \<open>r\<close> in the registry with its tick
  increased by exactly one and nothing else changed; every member is sent a snapshot
  of that room carrying the new tick, and every snapshot of room \<open>k\<close> sent in the
  iteration carries it. After \<open>n\<close> iterations in a row the tick is the old tick plus
  \<open>n\<close>. The same holds with any other steps in between: along every run that does not
  create a new room under the id \<open>k\<close>, connections, input messages and disconnections
  leave the tick of room \<open>k\<close> as it is, so while the room is registered its tick is the
  old tick plus the number of iterations so far, and the next iteration sends its members
  that number plus one. Hence the ticks of consecutive broadcasts of a room strictly
  increase. (Each step runs without interleaving of other handlers.)
\<close>

theorem snapshot_tick_increases:
  "reachable s \<and> map_of (rooms s) k = Some r \<longrightarrow>
     map_of (rooms (snapshot_iteration tm s)) k
       = Some (r\<lparr>state := (state r)\<lparr>tick := tick (state r) + 1\<rparr>\<rparr>)
     \<and> (\<exists>new. outbox (snapshot_iteration tm s) = outbox s @ new
          \<and> (\<forall>e \<in> set (players r). \<exists>t.
                (ws (snd e), Snapshot k ((state r)\<lparr>tick := tick (state r) + 1\<rparr>) t) \<in> set new)
          \<and> (\<forall>w st t. (w, Snapshot k st t) \<in> set new \<longrightarrow> tick st = tick (state r) + 1))
     \<and> (\<forall>n. \<exists>r'. map_of (rooms (snapshot_loop n tms s)) k = Some r'
           \<and> tick (state r') = tick (state r) + int n)
     \<and> (\<forall>es r1. list_all (\<lambda>e. \<not> mints k e) es \<and> map_of (rooms (run es s)) k = Some r1 \<longrightarrow>
           tick (state r1) = tick (state r) + int (broadcasts es)
           \<and> (\<exists>new. outbox (snapshot_iteration tm (run es s)) = outbox (run es s) @ new
                \<and> (\<forall>e \<in> set (players r1). \<exists>t.
                      (ws (snd e),
                       Snapshot k ((state r1)\<lparr>tick := tick (state r) + int (broadcasts es) + 1\<rparr>) t)
                        \<in> set new)
                \<and> (\<forall>w st t. (w, Snapshot k st t) \<in> set new \<longrightarrow>
                      tick st = tick (state r) + int (broadcasts es) + 1)))"
proof (intro impI)
  assume h: "reachable s \<and> map_of (rooms s) k = Some r"
  then have ok: "registry_ok (\<lambda>k r. room_id r = k) s" by (simp add: reachable_registry_ids)
  then have d: "distinct (map fst (rooms s))" by (simp add: registry_ok_def)
  from h have m: "map_of (rooms s) k = Some r" by simp
  have trace: "\<forall>es r1. list_all (\<lambda>e. \<not> mints k e) es \<and> map_of (rooms (run es s)) k = Some r1 \<longrightarrow>
           tick (state r1) = tick (state r) + int (broadcasts es)
           \<and> (\<exists>new. outbox (snapshot_iteration tm (run es s)) = outbox (run es s) @ new
                \<and> (\<forall>e \<in> set (players r1). \<exists>t.
                      (ws (snd e),
                       Snapshot k ((state r1)\<lparr>tick := tick (state r) + int (broadcasts es) + 1\<rparr>) t)
                        \<in> set new)
                \<and> (\<forall>w st t. (w, Snapshot k st t) \<in> set new \<longrightarrow>
                      tick st = tick (state r) + int (broadcasts es) + 1))"
  proof (intro allI impI)
    fix es r1
    assume a: "list_all (\<lambda>e. \<not> mints k e) es \<and> map_of (rooms (run es s)) k = Some r1"
    then have t: "tick (state r1) = tick (state r) + int (broadcasts es)"
      using run_tick_back [OF ok, of k es r1] m by auto
    have ok': "registry_ok (\<lambda>k r. room_id r = k) (run es s)"
      using ok by (rule run_registry_ids)
    from a have m1: "map_of (rooms (run es s)) k = Some r1" by simp
    show "tick (state r1) = tick (state r) + int (broadcasts es)
           \<and> (\<exists>new. outbox (snapshot_iteration tm (run es s)) = outbox (run es s) @ new
                \<and> (\<forall>e \<in> set (players r1). \<exists>t.
                      (ws (snd e),
                       Snapshot k ((state r1)\<lparr>tick := tick (state r) + int (broadcasts es) + 1\<rparr>) t)
                        \<in> set new)
                \<and> (\<forall>w st t. (w, Snapshot k st t) \<in> set new \<longrightarrow>
                      tick st = tick (state r) + int (broadcasts es) + 1))"
      using t snapshot_iteration_outbox [OF ok' m1, of tm]
      by (simp add: tick_room_def)
  qed
  show "map_of (rooms (snapshot_iteration tm s)) k
       = Some (r\<lparr>state := (state r)\<lparr>tick := tick (state r) + 1\<rparr>\<rparr>)
     \<and> (\<exists>new. outbox (snapshot_iteration tm s) = outbox s @ new
          \<and> (\<forall>e \<in> set (players r). \<exists>t.
                (ws (snd e), Snapshot k ((state r)\<lparr>tick := tick (state r) + 1\<rparr>) t) \<in> set new)
          \<and> (\<forall>w st t. (w, Snapshot k st t) \<in> set new \<longrightarrow> tick st = tick (state r) + 1))
     \<and> (\<forall>n. \<exists>r'. map_of (rooms (snapshot_loop n tms s)) k = Some r'
           \<and> tick (state r') = tick (state r) + int n)
     \<and> (\<forall>es r1. list_all (\<lambda>e. \<not> mints k e) es \<and> map_of (rooms (run es s)) k = Some r1 \<longrightarrow>
           tick (state r1) = tick (state r) + int (broadcasts es)
           \<and> (\<exists>new. outbox (snapshot_iteration tm (run es s)) = outbox (run es s) @ new
                \<and> (\<forall>e \<in> set (players r1). \<exists>t.
                      (ws (snd e),
                       Snapshot k ((state r1)\<lparr>tick := tick (state r) + int (broadcasts es) + 1\<rparr>) t)
                        \<in> set new)
                \<and> (\<forall>w st t. (w, Snapshot k st t) \<in> set new \<longrightarrow>
                      tick st = tick (state r) + int (broadcasts es) + 1)))"
    using snapshot_iteration_lookup [OF d m, of tm] snapshot_iteration_outbox [OF ok m, of tm]
      snapshot_loop_tick [OF d m, of _ tms] trace
    by (simp add: tick_room_def)
qed

theorem snapshot_tick_increases_witness:
  "reachable scenario_server
   \<and> map_of (rooms scenario_server) ''room-a1b2c3'' = Some (new_room ''room-a1b2c3'' 1 2 2 1)
   \<and> (\<exists>r'. map_of (rooms (snapshot_iteration real scenario_server)) ''room-a1b2c3'' = Some r'
         \<and> tick (state r') = 1)
   \<and> (\<exists>r'. map_of (rooms (snapshot_loop 3 (\<lambda>j. real) scenario_server)) ''room-a1b2c3'' = Some r'
         \<and> tick (state r') = 3)
   \<and> list_all (\<lambda>e. \<not> mints ''room-a1b2c3'' e) [Broadcast real, Disconnect (1::nat), Broadcast real]
   \<and> (\<exists>r1. map_of (rooms (run [Broadcast real, Disconnect 1, Broadcast real] scenario_server))
              ''room-a1b2c3'' = Some r1
         \<and> tick (state r1) = 0 + int (broadcasts [Broadcast real, Disconnect (1::nat), Broadcast real])
         \<and> tick (state r1) = 2)"
proof -
  let ?R = "new_room ''room-a1b2c3'' 1 2 2 1 :: nat Room"
  let ?es = "[Broadcast real, Disconnect (1::nat), Broadcast real]"
  let ?R2 = "\<lparr>room_id = ''room-a1b2c3'',
         players = [(''p1'', \<lparr>ws = 2::nat, player_id = ''p1'', pc_room_id = ''room-a1b2c3'',
                               joined_at = 1\<rparr>)],
         state = \<lparr>tick = 2, state_players = [(''p1'', spawn 180 300)]\<rparr>\<rparr>"
  have m: "map_of (rooms scenario_server) ''room-a1b2c3'' = Some ?R"
    by (simp add: scenario_server_eval)
  have t: "tick (state ?R) = 0"
    by (simp add: new_room_def)
  have l: "list_all (\<lambda>e. \<not> mints ''room-a1b2c3'' e) ?es"
    by simp
  have T: "map_of (rooms (snapshot_iteration real scenario_server)) ''room-a1b2c3''
       = Some (?R\<lparr>state := (state ?R)\<lparr>tick := tick (state ?R) + 1\<rparr>\<rparr>)
     \<and> (\<forall>n. \<exists>r'. map_of (rooms (snapshot_loop n (\<lambda>j. real) scenario_server)) ''room-a1b2c3''
            = Some r' \<and> tick (state r') = tick (state ?R) + int n)
     \<and> (\<forall>es r1. list_all (\<lambda>e. \<not> mints ''room-a1b2c3'' e) es
            \<and> map_of (rooms (run es scenario_server)) ''room-a1b2c3'' = Some r1 \<longrightarrow>
           tick (state r1) = tick (state ?R) + int (broadcasts es))"
    using snapshot_tick_increases [of scenario_server "''room-a1b2c3''" ?R real "\<lambda>j. real"]
      m reachable_scenario_server
    by blast
  have 1: "\<exists>r'. map_of (rooms (snapshot_iteration real scenario_server)) ''room-a1b2c3'' = Some r'
         \<and> tick (state r') = 1"
    using T t by simp
  obtain r3 where r3: "map_of (rooms (snapshot_loop 3 (\<lambda>j. real) scenario_server)) ''room-a1b2c3''
      = Some r3" "tick (state r3) = tick (state ?R) + int 3"
    using T by blast
  then have 2: "\<exists>r'. map_of (rooms (snapshot_loop 3 (\<lambda>j. real) scenario_server)) ''room-a1b2c3''
      = Some r' \<and> tick (state r') = 3"
    using t by simp
  have "tick (state ?R2) = tick (state ?R) + int (broadcasts ?es)"
    using T l scenario_run_room by blast
  then have 3: "\<exists>r1. map_of (rooms (run ?es scenario_server)) ''room-a1b2c3'' = Some r1
         \<and> tick (state r1) = 0 + int (broadcasts ?es) \<and> tick (state r1) = 2"
    using scenario_run_room t by (intro exI [of _ ?R2]) simp
  show ?thesis
    using m 1 2 3 l reachable_scenario_server by (intro conjI)
qed

text \<open>
  C4 (as the code has it). A call of \<open>try_matchmaking\<close> on a queue of \<open>n \<ge> 2\<close>
  connections pairs once: it removes exactly two distinct connections, registers one
  room under the new identifier with exactly these two as p1 and p2, and leaves
  \<open>n - 2\<close> connections queued; it does not repeat. As \<open>ws_handler\<close> calls it after every
  arrival, the queue of a reachable server state never holds more than one
  connection.
\<close>

theorem try_matchmaking_one_pair:
  "(pop_ok pop \<and> finite (queue s) \<and> 2 \<le> card (queue s) \<longrightarrow>
     (\<exists>a b room. a \<in> queue s \<and> b \<in> queue s \<and> a \<noteq> b
        \<and> queue (try_matchmaking pop rid tm s) = queue s - {a, b}
        \<and> card (queue (try_matchmaking pop rid tm s)) = card (queue s) - 2
        \<and> rooms (try_matchmaking pop rid tm s) = AList.update rid room (rooms s)
        \<and> room_id room = rid
        \<and> map fst (players room) = [''p1'', ''p2'']
        \<and> map (\<lambda>e. ws (snd e)) (players room) = [a, b]))
   \<and> (reachable s \<longrightarrow> finite (queue s) \<and> card (queue s) \<le> 1)"
proof (intro conjI impI)
  assume h: "pop_ok pop \<and> finite (queue s) \<and> 2 \<le> card (queue s)"
  let ?a = "pop (queue s)"
  let ?b = "pop (queue s - {?a})"
  have p: "?a \<in> queue s" "?b \<in> queue s" "?b \<noteq> ?a"
    "card (queue s - {?a} - {?b}) = card (queue s) - 2"
    using pop_two [of pop "queue s"] h by simp_all
  have q: "queue s - {?a} - {?b} = queue s - {?a, ?b}" by auto
  have n: "\<not> card (queue s) < 2" using h by simp
  show "\<exists>a b room. a \<in> queue s \<and> b \<in> queue s \<and> a \<noteq> b
        \<and> queue (try_matchmaking pop rid tm s) = queue s - {a, b}
        \<and> card (queue (try_matchmaking pop rid tm s)) = card (queue s) - 2
        \<and> rooms (try_matchmaking pop rid tm s) = AList.update rid room (rooms s)
        \<and> room_id room = rid
        \<and> map fst (players room) = [''p1'', ''p2'']
        \<and> map (\<lambda>e. ws (snd e)) (players room) = [a, b]"
    apply (rule exI [of _ ?a], rule exI [of _ ?b],
        rule exI [of _ "new_room rid (tm 0) (tm 1) ?a ?b"])
    using p q by (simp add: try_matchmaking_pairs [OF n] Let_def new_room_def)
next
  assume "reachable s"
  then show "finite (queue s)" "card (queue s) \<le> 1"
    using reachable_queue by blast+
qed

theorem try_matchmaking_one_pair_witness:
  "pop_ok (Max :: nat set \<Rightarrow> nat) \<and> finite (queue batch_server) \<and> 2 \<le> card (queue batch_server)
   \<and> (\<exists>a b room. a \<in> queue batch_server \<and> b \<in> queue batch_server \<and> a \<noteq> b
        \<and> queue (try_matchmaking Max ''room-a1b2c3'' real batch_server)
            = queue batch_server - {a, b}
        \<and> card (queue (try_matchmaking Max ''room-a1b2c3'' real batch_server))
            = card (queue batch_server) - 2
        \<and> rooms (try_matchmaking Max ''room-a1b2c3'' real batch_server)
            = AList.update ''room-a1b2c3'' room (rooms batch_server)
        \<and> room_id room = ''room-a1b2c3''
        \<and> map fst (players room) = [''p1'', ''p2'']
        \<and> map (\<lambda>e. ws (snd e)) (players room) = [a, b])
   \<and> reachable scenario_server
   \<and> finite (queue scenario_server) \<and> card (queue scenario_server) \<le> 1"
proof -
  have h: "pop_ok (Max :: nat set \<Rightarrow> nat) \<and> finite (queue batch_server)
      \<and> 2 \<le> card (queue batch_server)"
    by (simp add: batch_server_def pop_ok_Max)
  note A = try_matchmaking_one_pair [of Max batch_server "''room-a1b2c3''" real,
      THEN conjunct1, rule_format, OF h]
  note B = try_matchmaking_one_pair [of Max scenario_server "''room-a1b2c3''" real,
      THEN conjunct2, rule_format, OF reachable_scenario_server]
  show ?thesis
    using h A B reachable_scenario_server by (intro conjI) simp_all
qed

text \<open>
  The claim as written fails on a queue of four: one call leaves two connections
  queued and registers one room, not two.
\<close>

theorem try_matchmaking_leaves_two:
  "card (queue batch_server) = 4
   \<and> queue (try_matchmaking Max ''room-a1b2c3'' real batch_server) = {1, 2}
   \<and> card (queue (try_matchmaking Max ''room-a1b2c3'' real batch_server)) = 2
   \<and> map fst (rooms (try_matchmaking Max ''room-a1b2c3'' real batch_server)) = [''room-a1b2c3'']"
  by (simp add: batch_server_def try_matchmaking_pairs Let_def insert_Diff_if)

text \<open>
  C5. Let connection \<open>w\<close> be indexed as \<open>conn\<close>, and let the room registered under
  \<open>conn\<close>'s room id hold \<open>conn\<close> under its player id. If the room has two members, then
  after \<open>remove_client w\<close> the room is still registered, with the other member as its
  only member, and exactly one message was sent: \<open>player_left\<close> with the departed
  player's id and the room id, to that other member. If \<open>w\<close> was the room's only
  member, the room is no longer registered.
\<close>

theorem remove_client_room:
  "map_of (player_index s) w = Some conn \<and> map_of (rooms s) (pc_room_id conn) = Some room
     \<and> room_id room = pc_room_id conn \<and> distinct (map fst (players room))
     \<and> map_of (players room) (player_id conn) = Some conn \<longrightarrow>
   (length (players room) = 2 \<longrightarrow>
      (\<exists>q c room'. q \<noteq> player_id conn \<and> map_of (players room) q = Some c
         \<and> map_of (rooms (remove_client w s)) (room_id room) = Some room'
         \<and> players room' = [(q, c)]
         \<and> outbox (remove_client w s)
             = outbox s @ [(ws c, PlayerLeft (player_id conn) (room_id room))]))
   \<and> (length (players room) = 1 \<longrightarrow>
        map_of (rooms (remove_client w s)) (room_id room) = None)"
proof (intro impI conjI)
  assume h: "map_of (player_index s) w = Some conn \<and> map_of (rooms s) (pc_room_id conn) = Some room
     \<and> room_id room = pc_room_id conn \<and> distinct (map fst (players room))
     \<and> map_of (players room) (player_id conn) = Some conn"
  then have rc: "remove_client w s =
     (let room2 = room\<lparr>players := AList.delete (player_id conn) (players room),
                        state := (state room)\<lparr>state_players :=
                           AList.delete (player_id conn) (state_players (state room))\<rparr>\<rparr>;
          s3 = s\<lparr>queue := queue s - {w},
                 player_index := AList.delete w (player_index s),
                 rooms := AList.update (pc_room_id conn) room2 (rooms s)\<rparr>;
          s4 = broadcast room2 (PlayerLeft (player_id conn) (room_id room)) s3
      in if players room2 = [] then s4\<lparr>rooms := AList.delete (room_id room) (rooms s4)\<rparr> else s4)"
    using remove_client_member [of s w conn room] by simp
  {
    assume "length (players room) = 2"
    then obtain e1 e2 where es: "players room = [e1, e2]"
      by (auto simp: length_Suc_conv numeral_2_eq_2)
    obtain k1 c1 k2 c2 where e: "e1 = (k1, c1)" "e2 = (k2, c2)"
      by (cases e1, cases e2) blast
    have d: "k1 \<noteq> k2" using h es e by simp
    have m: "player_id conn = k1 \<or> player_id conn = k2"
      using h es e by (auto split: if_splits)
    then show "\<exists>q c room'. q \<noteq> player_id conn \<and> map_of (players room) q = Some c
         \<and> map_of (rooms (remove_client w s)) (room_id room) = Some room'
         \<and> players room' = [(q, c)]
         \<and> outbox (remove_client w s)
             = outbox s @ [(ws c, PlayerLeft (player_id conn) (room_id room))]"
    proof
      assume k: "player_id conn = k1"
      show ?thesis
        apply (rule exI [of _ k2], rule exI [of _ c2])
        using h es e d k
        by (simp add: rc Let_def broadcast_def AList.delete_eq update_conv')
    next
      assume k: "player_id conn = k2"
      show ?thesis
        apply (rule exI [of _ k1], rule exI [of _ c1])
        using h es e d k
        by (simp add: rc Let_def broadcast_def AList.delete_eq update_conv')
    qed
  }
  {
    assume "length (players room) = 1"
    then obtain e1 where es: "players room = [e1]"
      by (auto simp: length_Suc_conv)
    then have "AList.delete (player_id conn) (players room) = []"
      using h by (cases e1) (auto simp: AList.delete_eq split: if_splits)
    then show "map_of (rooms (remove_client w s)) (room_id room) = None"
      by (simp add: rc Let_def broadcast_def delete_conv')
  }
qed

lemma scenario_left_eval:
  "remove_client 1 scenario_server =
    \<lparr>rooms = [(''room-a1b2c3'',
        \<lparr>room_id = ''room-a1b2c3'',
         players = [(''p1'', \<lparr>ws = 2, player_id = ''p1'', pc_room_id = ''room-a1b2c3'',
                               joined_at = 1\<rparr>)],
         state = \<lparr>tick = 0, state_players = [(''p1'', spawn 180 300)]\<rparr>\<rparr>)],
     queue = {},
     player_index =
       [(2, \<lparr>ws = 2, player_id = ''p1'', pc_room_id = ''room-a1b2c3'', joined_at = 1\<rparr>)],
     outbox = outbox scenario_server @ [(2, PlayerLeft ''p2'' ''room-a1b2c3'')]\<rparr>"
  by (simp add: scenario_server_eval remove_client_eq new_room_def drop_player_def Let_def
      broadcast_def AList.delete_eq)

theorem remove_client_room_witness:
  "map_of (player_index scenario_server) 1
     = Some \<lparr>ws = 1, player_id = ''p2'', pc_room_id = ''room-a1b2c3'', joined_at = 2\<rparr>
   \<and> map_of (rooms scenario_server) ''room-a1b2c3'' = Some (new_room ''room-a1b2c3'' 1 2 2 1)
   \<and> length (players (new_room ''room-a1b2c3'' 1 2 2 (1::nat))) = 2
   \<and> (\<exists>q c room'. q \<noteq> ''p2''
         \<and> map_of (rooms (remove_client 1 scenario_server)) ''room-a1b2c3'' = Some room'
         \<and> players room' = [(q, c)]
         \<and> outbox (remove_client 1 scenario_server)
             = outbox scenario_server @ [(ws c, PlayerLeft ''p2'' ''room-a1b2c3'')])
   \<and> map_of (player_index (remove_client 1 scenario_server)) 2
       = Some \<lparr>ws = 2, player_id = ''p1'', pc_room_id = ''room-a1b2c3'', joined_at = 1\<rparr>
   \<and> map_of (rooms (remove_client 2 (remove_client 1 scenario_server))) ''room-a1b2c3'' = None"
proof -
  let ?c2 = "\<lparr>ws = 1::nat, player_id = ''p2'', pc_room_id = ''room-a1b2c3'', joined_at = 2\<rparr>"
  let ?c1 = "\<lparr>ws = 2::nat, player_id = ''p1'', pc_room_id = ''room-a1b2c3'', joined_at = 1\<rparr>"
  let ?R = "new_room ''room-a1b2c3'' 1 2 2 1 :: nat Room"
  let ?R1 = "\<lparr>room_id = ''room-a1b2c3'', players = [(''p1'', ?c1)],
              state = \<lparr>tick = 0, state_players = [(''p1'', spawn 180 300)]\<rparr>\<rparr>"
  have h2: "map_of (player_index scenario_server) 1 = Some ?c2
      \<and> map_of (rooms scenario_server) (pc_room_id ?c2) = Some ?R
      \<and> room_id ?R = pc_room_id ?c2 \<and> distinct (map fst (players ?R))
      \<and> map_of (players ?R) (player_id ?c2) = Some ?c2"
    by (simp add: scenario_server_eval new_room_def)
  have l2: "length (players ?R) = 2"
    by (simp add: new_room_def)
  have h1: "map_of (player_index (remove_client 1 scenario_server)) 2 = Some ?c1
      \<and> map_of (rooms (remove_client 1 scenario_server)) (pc_room_id ?c1) = Some ?R1
      \<and> room_id ?R1 = pc_room_id ?c1 \<and> distinct (map fst (players ?R1))
      \<and> map_of (players ?R1) (player_id ?c1) = Some ?c1"
    unfolding scenario_left_eval by simp
  have l1: "length (players ?R1) = 1"
    by simp
  note A = remove_client_room [of scenario_server 1 ?c2 ?R, rule_format, OF h2,
      THEN conjunct1, rule_format, OF l2]
  note B = remove_client_room [of "remove_client 1 scenario_server" 2 ?c1 ?R1, rule_format, OF h1,
      THEN conjunct2, rule_format, OF l1]
  show ?thesis
    using h2 l2 h1 A B by (intro conjI) (simp_all add: new_room_def)
qed

text \<open>
  C6 (as the code has it). When two distinct connections \<open>A\<close>, then \<open>B\<close>, arrive at a
  server with an empty queue, the second arrival matches them: the connection
  \<open>queue.pop()\<close> returns first becomes p1 with spawn (180, 300), the other becomes p2
  with spawn (620, 300), and the two are \<open>A\<close> and \<open>B\<close> in an order the set decides, not
  the order of arrival. Each is sent \<open>welcome\<close> with its player id and the shared room
  id, then \<open>match_found\<close> listing p1, p2 goes to both, and the queue is empty.
\<close>

theorem connect_two:
  "pop_ok pop \<and> queue s = {} \<and> A \<noteq> B \<longrightarrow>
   (\<exists>a b room. {a, b} = {A, B} \<and> a = pop {A, B}
      \<and> outbox (ws_connect pop rid2 tm2 B (ws_connect pop rid1 tm1 A s))
          = outbox s @
            [(A, QueueJoined PUBLIC_QUEUE (now_ms (tm1 0))),
             (B, QueueJoined PUBLIC_QUEUE (now_ms (tm2 0))),
             (a, Welcome ''p1'' rid2 (now_ms (tm2 3))),
             (b, Welcome ''p2'' rid2 (now_ms (tm2 4))),
             (a, MatchFound rid2 [''p1'', ''p2'']),
             (b, MatchFound rid2 [''p1'', ''p2''])]
      \<and> queue (ws_connect pop rid2 tm2 B (ws_connect pop rid1 tm1 A s)) = {}
      \<and> map_of (rooms (ws_connect pop rid2 tm2 B (ws_connect pop rid1 tm1 A s))) rid2 = Some room
      \<and> room_id room = rid2
      \<and> players room =
          [(''p1'', \<lparr>ws = a, player_id = ''p1'', pc_room_id = rid2, joined_at = tm2 1\<rparr>),
           (''p2'', \<lparr>ws = b, player_id = ''p2'', pc_room_id = rid2, joined_at = tm2 2\<rparr>)]
      \<and> state room =
          \<lparr>tick = 0, state_players = [(''p1'', spawn 180 300), (''p2'', spawn 620 300)]\<rparr>)"
proof
  assume h: "pop_ok pop \<and> queue s = {} \<and> A \<noteq> B"
  let ?s1 = "ws_connect pop rid1 tm1 A s"
  have s1: "?s1 = s\<lparr>outbox := outbox s @ [(A, QueueJoined PUBLIC_QUEUE (now_ms (tm1 0)))],
                    queue := {A}\<rparr>"
    using h by (simp add: ws_connect_def Let_def safe_send_def try_matchmaking_small)
  let ?a = "pop {A, B}"
  let ?b = "pop ({A, B} - {?a})"
  have c2: "card {A, B} = 2" using h by simp
  have p: "?a \<in> {A, B}" "?b \<in> {A, B}" "?b \<noteq> ?a"
    using pop_two [of pop "{A, B}"] h c2 by simp_all
  then have ab: "{?a, ?b} = {A, B}" by auto
  then have e: "{A, B} - {?a} - {?b} = {}" by auto
  have ins: "insert B {A} = {A, B}" by auto
  show "\<exists>a b room. {a, b} = {A, B} \<and> a = pop {A, B}
      \<and> outbox (ws_connect pop rid2 tm2 B ?s1)
          = outbox s @
            [(A, QueueJoined PUBLIC_QUEUE (now_ms (tm1 0))),
             (B, QueueJoined PUBLIC_QUEUE (now_ms (tm2 0))),
             (a, Welcome ''p1'' rid2 (now_ms (tm2 3))),
             (b, Welcome ''p2'' rid2 (now_ms (tm2 4))),
             (a, MatchFound rid2 [''p1'', ''p2'']),
             (b, MatchFound rid2 [''p1'', ''p2''])]
      \<and> queue (ws_connect pop rid2 tm2 B ?s1) = {}
      \<and> map_of (rooms (ws_connect pop rid2 tm2 B ?s1)) rid2 = Some room
      \<and> room_id room = rid2
      \<and> players room =
          [(''p1'', \<lparr>ws = a, player_id = ''p1'', pc_room_id = rid2, joined_at = tm2 1\<rparr>),
           (''p2'', \<lparr>ws = b, player_id = ''p2'', pc_room_id = rid2, joined_at = tm2 2\<rparr>)]
      \<and> state room =
          \<lparr>tick = 0, state_players = [(''p1'', spawn 180 300), (''p2'', spawn 620 300)]\<rparr>"
    apply (rule exI [of _ ?a], rule exI [of _ ?b])
    using ab e c2
    by (simp add: s1 ws_connect_def [of pop rid2 tm2 B] Let_def safe_send_def ins
        try_matchmaking_pairs new_room_def update_conv' eval_nat_numeral)
qed

theorem connect_two_witness:
  "pop_ok (Max :: nat set \<Rightarrow> nat) \<and> queue (init_server :: nat server) = {} \<and> (1::nat) \<noteq> 2
   \<and> (\<exists>a b room. {a, b} = {1, 2} \<and> a = Max {1, 2}
      \<and> outbox (ws_connect Max ''room-a1b2c3'' real 2
                  (ws_connect Max ''room-000000'' real 1 (init_server :: nat server)))
          = outbox (init_server :: nat server) @
            [(1, QueueJoined PUBLIC_QUEUE (now_ms (real 0))),
             (2, QueueJoined PUBLIC_QUEUE (now_ms (real 0))),
             (a, Welcome ''p1'' ''room-a1b2c3'' (now_ms (real 3))),
             (b, Welcome ''p2'' ''room-a1b2c3'' (now_ms (real 4))),
             (a, MatchFound ''room-a1b2c3'' [''p1'', ''p2'']),
             (b, MatchFound ''room-a1b2c3'' [''p1'', ''p2''])]
      \<and> queue (ws_connect Max ''room-a1b2c3'' real 2
                  (ws_connect Max ''room-000000'' real 1 (init_server :: nat server))) = {}
      \<and> map_of (rooms (ws_connect Max ''room-a1b2c3'' real 2
                  (ws_connect Max ''room-000000'' real 1 (init_server :: nat server)))) ''room-a1b2c3'' = Some room
      \<and> room_id room = ''room-a1b2c3''
      \<and> players room =
          [(''p1'', \<lparr>ws = a, player_id = ''p1'', pc_room_id = ''room-a1b2c3'', joined_at = real 1\<rparr>),
           (''p2'', \<lparr>ws = b, player_id = ''p2'', pc_room_id = ''room-a1b2c3'', joined_at = real 2\<rparr>)]
      \<and> state room =
          \<lparr>tick = 0, state_players = [(''p1'', spawn 180 300), (''p2'', spawn 620 300)]\<rparr>)"
proof -
  have h: "pop_ok (Max :: nat set \<Rightarrow> nat) \<and> queue (init_server :: nat server) = {}
      \<and> (1::nat) \<noteq> 2"
    by (simp add: pop_ok_Max init_server_def)
  note A = connect_two [of Max init_server 1 2 "''room-a1b2c3''" real "''room-000000''" real,
      rule_format, OF h]
  have "pop_ok (Max :: nat set \<Rightarrow> nat)" "queue (init_server :: nat server) = {}" "(1::nat) \<noteq> 2"
    using h by blast+
  then show ?thesis
    using A by (intro conjI)
qed

text \<open>
  The claim as written fails when \<open>set.pop\<close> returns the later arrival first: in
  \<open>scenario_server\<close> connection 1 arrived before connection 2, yet connection 2 is
  welcomed as p1 and spawns at x = 180, and connection 1 is p2 at x = 620.
\<close>

theorem second_arrival_gets_p1:
  "scenario_server =
     ws_connect Max ''room-a1b2c3'' real 2 (ws_connect Max ''room-000000'' real 1 init_server)
   \<and> outbox scenario_server =
       [(1, QueueJoined ''public'' 0), (2, QueueJoined ''public'' 0),
        (2, Welcome ''p1'' ''room-a1b2c3'' 3000), (1, Welcome ''p2'' ''room-a1b2c3'' 4000),
        (2, MatchFound ''room-a1b2c3'' [''p1'', ''p2'']),
        (1, MatchFound ''room-a1b2c3'' [''p1'', ''p2''])]
   \<and> map_of (player_index scenario_server) 1
       = Some \<lparr>ws = 1, player_id = ''p2'', pc_room_id = ''room-a1b2c3'', joined_at = 2\<rparr>
   \<and> map_of (player_index scenario_server) 2
       = Some \<lparr>ws = 2, player_id = ''p1'', pc_room_id = ''room-a1b2c3'', joined_at = 1\<rparr>
   \<and> map (\<lambda>e. state_players (state (snd e))) (rooms scenario_server)
       = [[(''p1'', spawn 180 300), (''p2'', spawn 620 300)]]"
proof (rule conjI)
  show "scenario_server =
     ws_connect Max ''room-a1b2c3'' real 2 (ws_connect Max ''room-000000'' real 1 init_server)"
    by (rule scenario_server_def)
  show "outbox scenario_server =
       [(1, QueueJoined ''public'' 0), (2, QueueJoined ''public'' 0),
        (2, Welcome ''p1'' ''room-a1b2c3'' 3000), (1, Welcome ''p2'' ''room-a1b2c3'' 4000),
        (2, MatchFound ''room-a1b2c3'' [''p1'', ''p2'']),
        (1, MatchFound ''room-a1b2c3'' [''p1'', ''p2''])]
   \<and> map_of (player_index scenario_server) 1
       = Some \<lparr>ws = 1, player_id = ''p2'', pc_room_id = ''room-a1b2c3'', joined_at = 2\<rparr>
   \<and> map_of (player_index scenario_server) 2
       = Some \<lparr>ws = 2, player_id = ''p1'', pc_room_id = ''room-a1b2c3'', joined_at = 1\<rparr>
   \<and> map (\<lambda>e. state_players (state (snd e))) (rooms scenario_server)
       = [[(''p1'', spawn 180 300), (''p2'', spawn 620 300)]]"
    by (simp add: scenario_server_eval new_room_def)
qed

text \<open>
  C7. In every reachable state of the server (any sequence of connections with
  matchmaking, received messages with \<open>apply_input\<close>, disconnections with
  \<open>remove_client\<close> and broadcaster iterations), every registered room's \<open>players\<close>
  mapping and its \<open>state['players']\<close> mapping have the same key set.
\<close>

theorem keys_always_match:
  "reachable s \<longrightarrow>
   (\<forall>e \<in> set (rooms s).
      set (map fst (players (snd e))) = set (map fst (state_players (state (snd e)))))"
proof
  assume r: "reachable s"
  have "registry_ok (\<lambda>k. keys_match) s"
    by (rule reachable_registry_ok [OF r])
      (auto simp: keys_match_def new_room_def apply_input_keys apply_input_frame drop_player_def
        delete_keys tick_room_def)
  then show "\<forall>e \<in> set (rooms s).
      set (map fst (players (snd e))) = set (map fst (state_players (state (snd e))))"
    by (simp add: registry_ok_def keys_match_def)
qed

theorem keys_always_match_witness:
  "reachable (remove_client 1 scenario_server)
   \<and> (''room-a1b2c3'',
        \<lparr>room_id = ''room-a1b2c3'',
         players = [(''p1'', \<lparr>ws = 2, player_id = ''p1'', pc_room_id = ''room-a1b2c3'',
                               joined_at = 1\<rparr>)],
         state = \<lparr>tick = 0, state_players = [(''p1'', spawn 180 300)]\<rparr>\<rparr>)
       \<in> set (rooms (remove_client 1 scenario_server))
   \<and> set (map fst [(''p1'', \<lparr>ws = 2::nat, player_id = ''p1'', pc_room_id = ''room-a1b2c3'',
                               joined_at = 1\<rparr>)])
       = set (map fst [(''p1'', spawn 180 300)])"
proof -
  let ?R1 = "\<lparr>room_id = ''room-a1b2c3'',
         players = [(''p1'', \<lparr>ws = 2::nat, player_id = ''p1'', pc_room_id = ''room-a1b2c3'',
                               joined_at = 1\<rparr>)],
         state = \<lparr>tick = 0, state_players = [(''p1'', spawn 180 300)]\<rparr>\<rparr>"
  have r: "reachable (remove_client 1 scenario_server)"
    by (intro reachable.r_remove reachable_scenario_server)
  have m: "(''room-a1b2c3'', ?R1) \<in> set (rooms (remove_client 1 scenario_server))"
    unfolding scenario_left_eval by simp
  note A = keys_always_match [of "remove_client 1 scenario_server", rule_format, OF r m]
  show ?thesis
    using r m A by simp
qed

text \<open>
  C10. \<open>apply_input\<close> changes nothing but the coordinates of the addressed player: the
  room id, the connections, the tick, the keys of the state mapping and the states of
  all other players are unchanged, and the addressed player's state differs from the old
  one in \<open>x\<close> and \<open>y\<close> only. In every reachable server state every player state of every
  registered room still has the \<open>hp\<close> and \<open>mana\<close> it was created with (100 each), and
  every snapshot that was sent carries player states with these two fields.
\<close>

theorem hp_mana_never_mutated:
  "room_id (apply_input parse cap room pid msg) = room_id room
   \<and> players (apply_input parse cap room pid msg) = players room
   \<and> tick (state (apply_input parse cap room pid msg)) = tick (state room)
   \<and> map fst (state_players (state (apply_input parse cap room pid msg)))
       = map fst (state_players (state room))
   \<and> (\<forall>q. q \<noteq> pid \<longrightarrow>
         map_of (state_players (state (apply_input parse cap room pid msg))) q
           = map_of (state_players (state room)) q)
   \<and> (\<forall>p. map_of (state_players (state room)) pid = Some p \<longrightarrow>
         (\<exists>vx vy. map_of (state_players (state (apply_input parse cap room pid msg))) pid
                     = Some (p\<lparr>px := vx, py := vy\<rparr>)))
   \<and> (reachable s \<longrightarrow>
         (\<forall>e \<in> set (rooms s). \<forall>q \<in> set (state_players (state (snd e))).
             hp (snd q) = 100 \<and> mana (snd q) = 100)
         \<and> (\<forall>m \<in> set (outbox s). \<forall>rid st t. snd m = Snapshot rid st t \<longrightarrow>
               (\<forall>q \<in> set (state_players st). hp (snd q) = 100 \<and> mana (snd q) = 100)))"
proof -
  have frame: "\<forall>p. map_of (state_players (state room)) pid = Some p \<longrightarrow>
         (\<exists>vx vy. map_of (state_players (state (apply_input parse cap room pid msg))) pid
                     = Some (p\<lparr>px := vx, py := vy\<rparr>))"
    using apply_input_present [of room pid _ parse cap msg] by blast
  have inv: "reachable s \<longrightarrow>
         (\<forall>e \<in> set (rooms s). \<forall>q \<in> set (state_players (state (snd e))).
             hp (snd q) = 100 \<and> mana (snd q) = 100)
         \<and> (\<forall>m \<in> set (outbox s). \<forall>rid st t. snd m = Snapshot rid st t \<longrightarrow>
               (\<forall>q \<in> set (state_players st). hp (snd q) = 100 \<and> mana (snd q) = 100))"
    using reachable_vitals [of s] reachable_snapshots_full [of s]
    by (simp add: registry_ok_def snapshots_full_def vitals_full_def)
  show ?thesis
    using frame inv
    by (simp add: apply_input_frame apply_input_keys apply_input_other)
qed

lemma scenario_snapshot_outbox:
  "outbox (snapshot_iteration real scenario_server) =
     outbox scenario_server @
       [(2, Snapshot ''room-a1b2c3''
              \<lparr>tick = 1, state_players = [(''p1'', spawn 180 300), (''p2'', spawn 620 300)]\<rparr> 0),
        (1, Snapshot ''room-a1b2c3''
              \<lparr>tick = 1, state_players = [(''p1'', spawn 180 300), (''p2'', spawn 620 300)]\<rparr> 0)]"
  by (simp add: snapshot_iteration_def scenario_server_eval snapshot_room_eq new_room_def
      tick_room_def broadcast_def now_ms_def Let_def round_double_numeral)

theorem hp_mana_never_mutated_witness:
  "''p2'' \<noteq> ''p1''
   \<and> map_of (state_players (state (apply_input (map_of []) (Fin 8) scenario_room ''p1''
         [(''dx'', JInt 100), (''dy'', JInt 0)]))) ''p2''
       = map_of (state_players (state scenario_room)) ''p2''
   \<and> map_of (state_players (state scenario_room)) ''p1'' = Some (spawn 180 300)
   \<and> (\<exists>vx vy. map_of (state_players (state (apply_input (map_of []) (Fin 8) scenario_room ''p1''
         [(''dx'', JInt 100), (''dy'', JInt 0)]))) ''p1''
       = Some ((spawn 180 300)\<lparr>px := vx, py := vy\<rparr>))
   \<and> reachable (snapshot_iteration real scenario_server)
   \<and> (2, Snapshot ''room-a1b2c3''
          \<lparr>tick = 1, state_players = [(''p1'', spawn 180 300), (''p2'', spawn 620 300)]\<rparr> 0)
       \<in> set (outbox (snapshot_iteration real scenario_server))
   \<and> (''p2'', spawn 620 300) \<in> set [(''p1'', spawn 180 300), (''p2'', spawn 620 300)]
   \<and> hp (spawn 620 300) = 100 \<and> mana (spawn 620 300) = 100"
proof -
  let ?msg = "[(''dx'', JInt 100), (''dy'', JInt 0)]"
  let ?st = "\<lparr>tick = 1, state_players = [(''p1'', spawn 180 300), (''p2'', spawn 620 300)]\<rparr>"
  note T = hp_mana_never_mutated [of "map_of []" "Fin 8" scenario_room "''p1''" ?msg
      "snapshot_iteration real scenario_server"]
  have r: "reachable (snapshot_iteration real scenario_server)"
    by (intro reachable.r_snapshot reachable_scenario_server)
  have m: "(2, Snapshot ''room-a1b2c3'' ?st 0) \<in> set (outbox (snapshot_iteration real scenario_server))"
    by (simp add: scenario_snapshot_outbox)
  have o: "map_of (state_players (state (apply_input (map_of []) (Fin 8) scenario_room ''p1'' ?msg)))
        ''p2'' = map_of (state_players (state scenario_room)) ''p2''"
    using T by simp
  have p: "\<exists>vx vy. map_of (state_players (state (apply_input (map_of []) (Fin 8) scenario_room
        ''p1'' ?msg))) ''p1'' = Some ((spawn 180 300)\<lparr>px := vx, py := vy\<rparr>)"
    using T scenario_room_p1 by blast
  have "\<forall>m \<in> set (outbox (snapshot_iteration real scenario_server)). \<forall>rid st t.
      snd m = Snapshot rid st t \<longrightarrow>
        (\<forall>q \<in> set (state_players st). hp (snd q) = 100 \<and> mana (snd q) = 100)"
    using T r by blast
  then have "\<forall>q \<in> set (state_players ?st). hp (snd q) = 100 \<and> mana (snd q) = 100"
    using m by fastforce
  then have v: "hp (spawn 620 300) = 100 \<and> mana (spawn 620 300) = 100"
    by simp
  show ?thesis
    using o p r m v scenario_room_p1 by simp
qed

end
